theory Spec2Isabelle
  imports Complex_Main "HOL-Library.Multiset"
begin

section \<open>Strings and character classes\<close>

text \<open>
  A JavaScript string is a sequence of UTF-16 code units; a code unit is modelled as a
  natural number, and \<open>js\<close> embeds an ASCII literal.
\<close>

type_synonym jstring = "nat list"

definition js :: "string \<Rightarrow> jstring" where
  "js s = map of_char s"

text \<open>A character class is a list of inclusive ranges, as written between brackets.\<close>

type_synonym cls = "(nat \<times> nat) list"

fun in_cls :: "cls \<Rightarrow> nat \<Rightarrow> bool" where
  "in_cls [] c = False"
| "in_cls ((lo, hi) # rs) c = ((lo \<le> c \<and> c \<le> hi) \<or> in_cls rs c)"

definition chars :: "nat list \<Rightarrow> cls" where
  "chars cs = map (\<lambda>c. (c, c)) cs"

text \<open>\<open>\s\<close>, \<open>\d\<close>, \<open>\w\<close>, \<open>[A-Za-z]\<close> and the line terminators excluded by \<open>.\<close>\<close>

definition wsCls :: cls where
  "wsCls = [(9, 13), (32, 32), (0xA0, 0xA0), (0x1680, 0x1680), (0x2000, 0x200A),
            (0x2028, 0x2029), (0x202F, 0x202F), (0x205F, 0x205F), (0x3000, 0x3000),
            (0xFEFF, 0xFEFF)]"

definition digitCls :: cls where
  "digitCls = [(48, 57)]"

definition wordCls :: cls where
  "wordCls = [(65, 90), (97, 122), (48, 57), (95, 95)]"

definition alphaCls :: cls where
  "alphaCls = [(65, 90), (97, 122)]"

definition lineTerm :: cls where
  "lineTerm = [(10, 10), (13, 13), (0x2028, 0x2029)]"

text \<open>
  Case folding of the \<open>i\<close> flag. Every pattern of the program has only ASCII letters,
  and without the \<open>u\<close> flag no character outside ASCII folds onto an ASCII one, so
  folding the ASCII letters is exact for these patterns.
\<close>

definition toUpper :: "nat \<Rightarrow> nat" where
  "toUpper c = (if 97 \<le> c \<and> c \<le> 122 then c - 32 else c)"

definition toLower :: "nat \<Rightarrow> nat" where
  "toLower c = (if 65 \<le> c \<and> c \<le> 90 then c + 32 else c)"

definition cls_match :: "bool \<Rightarrow> cls \<Rightarrow> nat \<Rightarrow> bool" where
  "cls_match ic rs c =
     (in_cls rs c \<or> (ic \<and> (in_cls rs (toUpper c) \<or> in_cls rs (toLower c))))"

text \<open>\<open>String.prototype.trim\<close> strips white space and line terminators at both ends.\<close>

definition trim :: "jstring \<Rightarrow> jstring" where
  "trim s = rev (dropWhile (in_cls wsCls) (rev (dropWhile (in_cls wsCls) s)))"

section \<open>Regular expressions with backtracking\<close>

datatype re =
    Cls cls
  | NCls cls
  | Eps
  | Seq re re
  | Alt re re
  | Star re
  | Grp nat re
  | Bol
  | WordB
  | Look re

datatype flags = Flags (icase: bool) (multiline: bool)

text \<open>
  A matcher state: the code unit before the current position (\<open>None\<close> at the start of
  the input), the rest of the input, and the captures, latest binding first.
\<close>

type_synonym caps = "(nat \<times> jstring) list"
type_synonym mstate = "nat option \<times> jstring \<times> caps"

definition is_word_at :: "nat option \<Rightarrow> bool" where
  "is_word_at p = (case p of None \<Rightarrow> False | Some c \<Rightarrow> in_cls wordCls c)"

definition next_char :: "jstring \<Rightarrow> nat option" where
  "next_char s = (case s of [] \<Rightarrow> None | c # _ \<Rightarrow> Some c)"

text \<open>
  \<open>matches\<close> lists the states in which a pattern can end, in the order in which the
  backtracking matcher tries them: the first is the match that is taken. A greedy star
  tries another iteration before it stops, and an iteration that consumes nothing is
  rejected.
\<close>

fun matches :: "flags \<Rightarrow> re \<Rightarrow> mstate \<Rightarrow> mstate list" where
  "matches fl (Cls rs) (p, s, cs) =
     (case s of [] \<Rightarrow> []
      | c # t \<Rightarrow> if cls_match (icase fl) rs c then [(Some c, t, cs)] else [])"
| "matches fl (NCls rs) (p, s, cs) =
     (case s of [] \<Rightarrow> []
      | c # t \<Rightarrow> if cls_match (icase fl) rs c then [] else [(Some c, t, cs)])"
| "matches fl Eps st = [st]"
| "matches fl (Seq a b) st = concat (map (matches fl b) (matches fl a st))"
| "matches fl (Alt a b) st = matches fl a st @ matches fl b st"
| "matches fl (Star a) (p, s, cs) =
     concat (map (\<lambda>st'. if length (fst (snd st')) < length s
                         then matches fl (Star a) st' else [])
                 (matches fl a (p, s, cs))) @ [(p, s, cs)]"
| "matches fl (Grp i a) (p, s, cs) =
     map (\<lambda>st'. (fst st', fst (snd st'),
                 (i, take (length s - length (fst (snd st'))) s) # snd (snd st')))
         (matches fl a (p, s, cs))"
| "matches fl Bol (p, s, cs) =
     (if p = None \<or> (multiline fl \<and> (case p of None \<Rightarrow> False | Some c \<Rightarrow> in_cls lineTerm c))
      then [(p, s, cs)] else [])"
| "matches fl WordB (p, s, cs) =
     (if is_word_at p \<noteq> is_word_at (next_char s) then [(p, s, cs)] else [])"
| "matches fl (Look a) (p, s, cs) =
     (case matches fl a (p, s, cs) of [] \<Rightarrow> [] | st' # _ \<Rightarrow> [(p, s, snd (snd st'))])"

lemmas matches_Star = matches.simps(6)
declare matches.simps(6) [simp del]

definition match_at :: "flags \<Rightarrow> re \<Rightarrow> nat option \<Rightarrow> jstring \<Rightarrow> mstate option" where
  "match_at fl r p s = (case matches fl r (p, s, []) of [] \<Rightarrow> None | st # _ \<Rightarrow> Some st)"

text \<open>
  A global scan (flag \<open>g\<close>): the leftmost match from the current position is taken, the
  scan goes on after it, and after an empty match it moves one code unit forward.
\<close>

datatype piece = Plain nat | Matched jstring caps

function scan :: "flags \<Rightarrow> re \<Rightarrow> nat option \<Rightarrow> jstring \<Rightarrow> piece list" where
  "scan fl r p s =
     (case match_at fl r p s of
        None \<Rightarrow> (case s of [] \<Rightarrow> [] | c # t \<Rightarrow> Plain c # scan fl r (Some c) t)
      | Some (p', s', cs) \<Rightarrow>
          if length s' < length s
          then Matched (take (length s - length s') s) cs # scan fl r p' s'
          else Matched [] cs #
               (case s of [] \<Rightarrow> [] | c # t \<Rightarrow> Plain c # scan fl r (Some c) t))"
  by pat_completeness auto
termination
  by (relation "measure (\<lambda>(fl, r, p, s). length s)") auto

declare scan.simps [simp del]

text \<open>Replacement templates: literal text, \<open>$n\<close> and \<open>$&\<close>.\<close>

datatype titem = Lit jstring | Ref nat | Whole

definition group :: "caps \<Rightarrow> nat \<Rightarrow> jstring" where
  "group cs i = (case map_of cs i of None \<Rightarrow> [] | Some g \<Rightarrow> g)"

fun expand :: "titem list \<Rightarrow> jstring \<Rightarrow> caps \<Rightarrow> jstring" where
  "expand [] m cs = []"
| "expand (Lit l # t) m cs = l @ expand t m cs"
| "expand (Ref i # t) m cs = group cs i @ expand t m cs"
| "expand (Whole # t) m cs = m @ expand t m cs"

fun render :: "titem list \<Rightarrow> piece list \<Rightarrow> jstring" where
  "render t [] = []"
| "render t (Plain c # ps) = c # render t ps"
| "render t (Matched m cs # ps) = expand t m cs @ render t ps"

text \<open>\<open>s.replace(/r/g, t)\<close>, \<open>s.matchAll(/r/g)\<close> and \<open>s.replace(pat, rep)\<close> with a string pattern.\<close>

definition replace_all :: "flags \<Rightarrow> re \<Rightarrow> titem list \<Rightarrow> jstring \<Rightarrow> jstring" where
  "replace_all fl r t s = render t (scan fl r None s)"

fun full_matches :: "piece list \<Rightarrow> jstring list" where
  "full_matches [] = []"
| "full_matches (Plain c # ps) = full_matches ps"
| "full_matches (Matched m cs # ps) = m # full_matches ps"

definition matchAll :: "flags \<Rightarrow> re \<Rightarrow> jstring \<Rightarrow> jstring list" where
  "matchAll fl r s = full_matches (scan fl r None s)"

fun replace_first :: "jstring \<Rightarrow> jstring \<Rightarrow> jstring \<Rightarrow> jstring" where
  "replace_first pat rep [] = (if pat = [] then rep else [])"
| "replace_first pat rep (c # s) =
     (if take (length pat) (c # s) = pat then rep @ drop (length pat) (c # s)
      else c # replace_first pat rep s)"

subsection \<open>Pattern syntax\<close>

definition chr :: "nat \<Rightarrow> re" where
  "chr c = Cls [(c, c)]"

fun lit :: "jstring \<Rightarrow> re" where
  "lit [] = Eps"
| "lit (c # s) = Seq (chr c) (lit s)"

definition Plus :: "re \<Rightarrow> re" where
  "Plus r = Seq r (Star r)"

definition Opt :: "re \<Rightarrow> re" where
  "Opt r = Alt r Eps"

fun rep :: "nat \<Rightarrow> re \<Rightarrow> re" where
  "rep 0 r = Eps"
| "rep (Suc n) r = Seq r (rep n r)"

fun rep_upto :: "nat \<Rightarrow> re \<Rightarrow> re" where
  "rep_upto 0 r = Eps"
| "rep_upto (Suc n) r = Opt (Seq r (rep_upto n r))"

fun seqs :: "re list \<Rightarrow> re" where
  "seqs [] = Eps"
| "seqs (r # rs) = Seq r (seqs rs)"

fun alts :: "re list \<Rightarrow> re" where
  "alts [] = Eps"
| "alts [r] = r"
| "alts (r # rs) = Alt r (alts rs)"

definition gflags :: flags where "gflags = Flags False False"
definition giflags :: flags where "giflags = Flags True False"
definition gimflags :: flags where "gimflags = Flags True True"

abbreviation "ws \<equiv> Cls wsCls"
abbreviation "digit \<equiv> Cls digitCls"
abbreviation "word \<equiv> Cls wordCls"
abbreviation "nl \<equiv> chr 10"
abbreviation "notnl \<equiv> NCls [(10, 10)]"
abbreviation "dash \<equiv> Cls (chars [45, 0x2013, 0x2014])"


section \<open>The text normalizer: \<open>correctText\<close> (services/openai.ts)\<close>

text \<open>
  The emoji pattern is the only one with the \<open>u\<close> flag: it reads code points, so a
  surrogate pair counts as one character. Every other pattern reads code units.
\<close>

definition emojiCls :: cls where
  "emojiCls = [(0x1F600, 0x1F64F), (0x1F300, 0x1F5FF), (0x1F680, 0x1F6FF), (0x1F700, 0x1F77F),
               (0x1F780, 0x1F7FF), (0x1F800, 0x1F8FF), (0x1F900, 0x1F9FF), (0x1FA00, 0x1FA6F),
               (0x1FA70, 0x1FAFF), (0x2600, 0x26FF), (0x2700, 0x27BF)]"

definition codePoint :: "nat \<Rightarrow> nat \<Rightarrow> nat" where
  "codePoint hi lo = 0x10000 + (hi - 0xD800) * 0x400 + (lo - 0xDC00)"

fun removeEmoji :: "jstring \<Rightarrow> jstring" where
  "removeEmoji [] = []"
| "removeEmoji [c] = (if in_cls emojiCls c then [] else [c])"
| "removeEmoji (c # d # s) =
     (if in_cls [(0xD800, 0xDBFF)] c \<and> in_cls [(0xDC00, 0xDFFF)] d
      then (if in_cls emojiCls (codePoint c d) then removeEmoji s else c # d # removeEmoji s)
      else if in_cls emojiCls c then removeEmoji (d # s) else c # removeEmoji (d # s))"

definition pageBreakRe :: re where
  "pageBreakRe = seqs [lit (js ''---''), Star ws, lit (js ''Page''), Star ws,
                       lit (js ''Break''), Star ws, lit (js ''---'')]"

definition bullets1 :: cls where
  "bullets1 = chars [0x2022, 0x25CF, 0x25A0, 0x25A1, 0x25AA, 0x25AB, 0x2043, 0x2219,
                     0x2022, 0x25E6, 0x25CB, 0x25CF, 0x25AA, 0x25AB, 0x2043, 0x2219]"
definition bullets2 :: cls where
  "bullets2 = chars [0x25B8, 0x25BA, 0x25BC, 0x25BE, 0x25C2, 0x25C4, 0x25C6, 0x25C8,
                     0x25CB, 0x25CE, 0x25CF]"
definition bullets3 :: cls where
  "bullets3 = chars [0x25D0, 0x25D1, 0x25D2, 0x25D3, 0x25D4, 0x25D5, 0x25D6, 0x25D7,
                     0x25D8, 0x25D9, 0x25DA, 0x25DB, 0x25DC, 0x25DD, 0x25DE, 0x25DF]"
definition bullets4 :: cls where
  "bullets4 = chars [0x25E0, 0x25E1, 0x25E2, 0x25E3, 0x25E4, 0x25E5, 0x25E6, 0x25E7,
                     0x25E8, 0x25E9, 0x25EA, 0x25EB, 0x25EC, 0x25ED, 0x25EE, 0x25EF]"
definition bullets5 :: cls where
  "bullets5 = chars [0x2605, 0x2606, 0x260E, 0x2616, 0x2617, 0x2619, 0x261A, 0x261B,
                     0x261C, 0x261D, 0x261E, 0x261F]"
definition bullets6 :: cls where
  "bullets6 = chars [0x2660, 0x2661, 0x2662, 0x2663, 0x2664, 0x2665, 0x2666, 0x2667,
                     0x2668, 0x2669, 0x266A, 0x266B, 0x266C, 0x266D, 0x266E, 0x266F]"

text \<open>\<open>/(\w+)-\s*\n\s*(\w+)/g\<close>\<close>

definition hyphenBreakRe :: re where
  "hyphenBreakRe = seqs [Grp 1 (Plus word), chr 45, Star ws, nl, Star ws, Grp 2 (Plus word)]"

text \<open>
  \<open>/\b([A-Za-z])\s+([A-Za-z])\s+ ... \s+([A-Za-z])\b/g\<close> with \<open>n\<close> letters,
  for \<open>n\<close> from 6 down to 2.
\<close>

definition letter :: "nat \<Rightarrow> re" where
  "letter i = Grp i (Cls alphaCls)"

definition spaced6 :: re where
  "spaced6 = seqs [WordB, letter 1, Plus ws, letter 2, Plus ws, letter 3, Plus ws, letter 4,
                   Plus ws, letter 5, Plus ws, letter 6, WordB]"
definition spaced5 :: re where
  "spaced5 = seqs [WordB, letter 1, Plus ws, letter 2, Plus ws, letter 3, Plus ws, letter 4,
                   Plus ws, letter 5, WordB]"
definition spaced4 :: re where
  "spaced4 = seqs [WordB, letter 1, Plus ws, letter 2, Plus ws, letter 3, Plus ws, letter 4,
                   WordB]"
definition spaced3 :: re where
  "spaced3 = seqs [WordB, letter 1, Plus ws, letter 2, Plus ws, letter 3, WordB]"
definition spaced2 :: re where
  "spaced2 = seqs [WordB, letter 1, Plus ws, letter 2, WordB]"

definition joinSpacedLetters :: "jstring \<Rightarrow> jstring" where
  "joinSpacedLetters s =
     replace_all gflags spaced2 [Ref 1, Ref 2]
       (replace_all gflags spaced3 [Ref 1, Ref 2, Ref 3]
         (replace_all gflags spaced4 [Ref 1, Ref 2, Ref 3, Ref 4]
           (replace_all gflags spaced5 [Ref 1, Ref 2, Ref 3, Ref 4, Ref 5]
             (replace_all gflags spaced6 [Ref 1, Ref 2, Ref 3, Ref 4, Ref 5, Ref 6] s))))"

text \<open>\<open>.replace(/\s+/g, ' ').trim()\<close>\<close>

definition fixExtraSpaces :: "jstring \<Rightarrow> jstring" where
  "fixExtraSpaces s = trim (replace_all gflags (Plus ws) [Lit [32]] s)"

text \<open>\<open>/\.\s+([A-Z])/g\<close>\<close>

definition sentenceRe :: re where
  "sentenceRe = seqs [chr 46, Plus ws, Grp 1 (Cls [(65, 90)])]"

text \<open>
  \<open>/(\d{4})\s*[-\<dots>]\s*(\d{4}|Present|present|Current|current)\s*([^\n])/gi\<close> and
  \<open>/(\d{1,2}\/\d{4})\s*[-\<dots>]\s*(\d{1,2}\/\d{4}|Present|present|Current|current)\s*([^\n])/gi\<close>,
  where the separator class holds the hyphen, the en dash and the em dash.
\<close>

definition monthYear :: re where
  "monthYear = seqs [digit, Opt digit, chr 47, rep 4 digit]"

definition yearRangeRe :: re where
  "yearRangeRe =
     seqs [Grp 1 (rep 4 digit), Star ws, dash, Star ws,
           Grp 2 (alts [rep 4 digit, lit (js ''Present''), lit (js ''present''),
                        lit (js ''Current''), lit (js ''current'')]),
           Star ws, Grp 3 notnl]"

definition monthRangeRe :: re where
  "monthRangeRe =
     seqs [Grp 1 monthYear, Star ws, dash, Star ws,
           Grp 2 (alts [monthYear, lit (js ''Present''), lit (js ''present''),
                        lit (js ''Current''), lit (js ''current'')]),
           Star ws, Grp 3 notnl]"

definition dateRanges :: "jstring \<Rightarrow> jstring" where
  "dateRanges s =
     replace_all giflags monthRangeRe [Ref 1, Lit (js '' - ''), Ref 2, Lit [10, 10], Ref 3]
       (replace_all giflags yearRangeRe [Ref 1, Lit (js ''-''), Ref 2, Lit [10, 10], Ref 3] s)"

definition sectionHeaders :: "string list" where
  "sectionHeaders =
     [''Experience'', ''Education'', ''Skills'', ''Languages'', ''Projects'', ''Certifications'',
      ''References'', ''Responsibilities'', ''Achievements'', ''Key responsibilities'',
      ''Work Experience'', ''Professional Experience'', ''Technical Skills'', ''Soft Skills'',
      ''Publications'', ''Awards'', ''Volunteer Work'', ''Interests'', ''Hobbies'',
      ''Contact Information'', ''Summary'', ''Objective'', ''Personal Statement'',
      ''Professional Summary'', ''Career Highlights'']"

text \<open>\<open>new RegExp(`(${sectionHeaders.join('|')})\\s*:?\\s*([^\\n])`, 'gi')\<close>\<close>

definition sectionHeadersRegex :: re where
  "sectionHeadersRegex =
     seqs [Grp 1 (alts (map (\<lambda>h. lit (js h)) sectionHeaders)), Star ws, Opt (chr 58), Star ws,
           Grp 2 notnl]"

definition sectionBreaks :: "jstring \<Rightarrow> jstring" where
  "sectionBreaks s = replace_all giflags sectionHeadersRegex [Ref 1, Lit [58, 10, 10], Ref 2] s"

text \<open>\<open>/\n\s*\n\s*\n+/g\<close>\<close>

definition multiBreakRe :: re where
  "multiBreakRe = seqs [nl, Star ws, nl, Star ws, Plus nl]"

text \<open>
  \<open>correctText\<close>; the argument is \<open>None\<close> for \<open>null\<close> or \<open>undefined\<close>, and
  \<open>!text\<close> holds for these and for the empty string.
\<close>

definition removeSymbols :: "jstring \<Rightarrow> jstring" where
  "removeSymbols s =
     replace_all gflags (chr 124) []
       (replace_all gflags (Cls bullets6) []
         (replace_all gflags (Cls bullets5) []
           (replace_all gflags (Cls bullets4) []
             (replace_all gflags (Cls bullets3) []
               (replace_all gflags (Cls bullets2) []
                 (replace_all gflags (Cls bullets1) []
                   (replace_all giflags pageBreakRe [] (removeEmoji s))))))))"

definition correctText :: "jstring option \<Rightarrow> jstring" where
  "correctText text =
     (case text of None \<Rightarrow> []
      | Some t \<Rightarrow>
          if t = [] then []
          else replace_all gflags multiBreakRe [Lit [10, 10]]
                 (sectionBreaks
                   (dateRanges
                     (replace_all gflags sentenceRe [Lit [46, 10, 10], Ref 1]
                       (fixExtraSpaces
                         (joinSpacedLetters
                           (replace_all gflags hyphenBreakRe [Ref 1, Ref 2]
                             (removeSymbols t))))))))"

section \<open>The line reconstructor and the per-page pipeline (components/PDFViewer.tsx)\<close>

subsection \<open>\<open>fixSpacedLetters\<close>\<close>

text \<open>\<open>/(?:\b([a-zA-Z]) )+([a-zA-Z])\b/g\<close>\<close>

definition singleLetterPattern :: re where
  "singleLetterPattern =
     seqs [Plus (seqs [WordB, Grp 1 (Cls [(97, 122), (65, 90)]), chr 32]),
           Grp 2 (Cls [(97, 122), (65, 90)]), WordB]"

text \<open>The body of the loop over the matches, and the loop.\<close>

definition fixStep :: "jstring \<Rightarrow> jstring \<Rightarrow> jstring" where
  "fixStep result fullMatch =
     (let joined = replace_all gflags (chr 32) [] fullMatch
      in if length joined > 2 then replace_first fullMatch joined result else result)"

definition fixSpacedLetters :: "jstring \<Rightarrow> jstring" where
  "fixSpacedLetters text =
     (let ms = matchAll gflags singleLetterPattern text
      in if length ms = 0 then text else foldl fixStep text ms)"

subsection \<open>\<open>cleanAndFormatText\<close>\<close>

text \<open>\<open>/([\u2022\u25cf\u25a0\u25c6\u25cb\u25e6-])\s*/g\<close>\<close>

definition bulletRe :: re where
  "bulletRe = seqs [Grp 1 (Cls (chars [0x2022, 0x25CF, 0x25A0, 0x25C6, 0x25CB, 0x25E6, 45])),
                    Star ws]"

text \<open>\<open>/([a-z])- ?\n([a-z])/gi\<close> and \<open>/([a-z])\n([a-z])/gi\<close>\<close>

definition hyphenLineRe :: re where
  "hyphenLineRe = seqs [Grp 1 (Cls [(97, 122)]), chr 45, Opt (chr 32), nl, Grp 2 (Cls [(97, 122)])]"

definition brokenLineRe :: re where
  "brokenLineRe = seqs [Grp 1 (Cls [(97, 122)]), nl, Grp 2 (Cls [(97, 122)])]"

text \<open>\<open>/(\d{1,2}\/\d{4}|\d{4})\s*[-\<dots>]\s*(\d{1,2}\/\d{4}|\d{4}|Present)/gi\<close>\<close>

definition dateRe :: re where
  "dateRe = seqs [Grp 1 (alts [monthYear, rep 4 digit]), Star ws, dash, Star ws,
                  Grp 2 (alts [monthYear, rep 4 digit, lit (js ''Present'')])]"

text \<open>
  \<open>/^(.{0,50})(Project Manager|Head Of|Director|Manager|Engineer|Developer|Designer|Consultant|Analyst|Specialist)/gim\<close>
\<close>

definition jobTitles :: "string list" where
  "jobTitles = [''Project Manager'', ''Head Of'', ''Director'', ''Manager'', ''Engineer'',
                ''Developer'', ''Designer'', ''Consultant'', ''Analyst'', ''Specialist'']"

definition jobTitleRe :: re where
  "jobTitleRe = seqs [Bol, Grp 1 (rep_upto 50 (NCls lineTerm)),
                      Grp 2 (alts (map (\<lambda>h. lit (js h)) jobTitles))]"

text \<open>
  The section pattern is built from the template literal
  \<open>`(^|\n)\s*\b(${sectionHeaders.join('|')})\b[^\n]*`\<close>, which is not a raw string:
  in it \<open>\n\<close> is a line feed, \<open>\b\<close> is the backspace U+0008 and \<open>\s\<close> is the
  letter s. The pattern that \<open>RegExp\<close> receives is therefore
  \<open>(^|LF)s*BS(Experience|...)BS[^LF]*\<close>, with flags \<open>gim\<close>.
\<close>

definition sectionHeadersV :: "string list" where
  "sectionHeadersV =
     [''Experience'', ''Education'', ''Skills'', ''Languages'', ''Projects'', ''Certifications'',
      ''References'', ''Responsibilities'', ''Achievements'']"

definition sectionRegex :: re where
  "sectionRegex =
     seqs [Grp 1 (Alt Bol nl), Star (chr 115), chr 8,
           Grp 2 (alts (map (\<lambda>h. lit (js h)) sectionHeadersV)), chr 8, Star notnl]"

text \<open>\<open>/([.!?])\s+(?=[A-Z])/g\<close> and \<open>/\n{3,}/g\<close>\<close>

definition sentenceEndRe :: re where
  "sentenceEndRe = seqs [Grp 1 (Cls (chars [46, 33, 63])), Plus ws, Look (Cls [(65, 90)])]"

definition threeBreaksRe :: re where
  "threeBreaksRe = seqs [rep 3 nl, Star nl]"

definition cleanWhitespace :: "jstring \<Rightarrow> jstring" where
  "cleanWhitespace s =
     replace_all gflags threeBreaksRe [Lit [10, 10]]
       (replace_all gflags (seqs [Plus ws, nl]) [Lit [10]]
         (replace_all gflags (seqs [nl, Plus ws]) [Lit [10]]
           (replace_all gflags (Plus (Cls [(32, 32), (9, 9)])) [Lit [32]] s)))"

definition cleanAndFormatText :: "jstring option \<Rightarrow> jstring" where
  "cleanAndFormatText text =
     (case text of None \<Rightarrow> []
      | Some t \<Rightarrow>
          if t = [] then []
          else trim
            (replace_all gflags threeBreaksRe [Lit [10, 10]]
              (replace_all gflags sentenceEndRe [Ref 1, Lit [10, 10]]
                (replace_all gimflags sectionRegex [Lit [10, 10], Whole, Lit [10]]
                  (replace_all gimflags jobTitleRe [Lit [10, 10], Ref 1, Ref 2]
                    (replace_all giflags dateRe [Lit [10, 10], Whole, Lit [10]]
                      (replace_all giflags brokenLineRe [Ref 1, Lit [32], Ref 2]
                        (replace_all giflags hyphenLineRe [Ref 1, Ref 2]
                          (cleanWhitespace
                            (fixSpacedLetters
                              (replace_all gflags (chr 124) []
                                (replace_all gflags bulletRe []
                                  (replace_all giflags pageBreakRe []
                                    (removeEmoji t))))))))))))))"

subsection \<open>\<open>formatTextContent\<close>\<close>

text \<open>
  Coordinates are JavaScript numbers, that is IEEE 754 binary64 values. A finite double
  is modelled by the rational number it denotes, and \<open>a - b\<close> by the exact difference
  rounded to the nearest double, ties to the even significand (\<open>fsub\<close>). The
  significand has 53 bits; below \<open>2 powi minExponent\<close> the doubles are subnormal and
  their spacing stays \<open>2 powi (minExponent - 52)\<close>. A difference beyond the largest
  double is \<open>Infinity\<close> in JavaScript and a large rational here; the program only
  tests the sign of a difference and compares its absolute value with 4 and with 12,
  and these tests come out the same.
\<close>

function ilog2 :: "int \<Rightarrow> int" where
  "ilog2 n = (if n < 2 then 0 else 1 + ilog2 (n div 2))"
  by pat_completeness auto
termination
  by (relation "measure nat") auto

declare ilog2.simps [simp del]

text \<open>\<open>exponent a\<close> is the integer \<open>e\<close> with \<open>2 powi e \<le> a < 2 powi (e + 1)\<close>, for \<open>0 < a\<close>.\<close>

definition exponent :: "rat \<Rightarrow> int" where
  "exponent a =
     (if 1 \<le> a then ilog2 \<lfloor>a\<rfloor>
      else let l = ilog2 \<lfloor>1 / a\<rfloor> in if 2 powi (- l) \<le> a then - l else - l - 1)"

definition roundHalfEven :: "rat \<Rightarrow> int" where
  "roundHalfEven q =
     (let f = \<lfloor>q\<rfloor>; d = q - of_int f
      in if d < 1 / 2 then f else if 1 / 2 < d then f + 1 else if even f then f else f + 1)"

definition minExponent :: int where
  "minExponent = - 1022"

definition ulp :: "rat \<Rightarrow> rat" where
  "ulp a = 2 powi (max (exponent a) minExponent - 52)"

definition toDouble :: "rat \<Rightarrow> rat" where
  "toDouble x =
     (if x = 0 then 0 else sgn x * of_int (roundHalfEven (\<bar>x\<bar> / ulp \<bar>x\<bar>)) * ulp \<bar>x\<bar>)"

definition fsub :: "rat \<Rightarrow> rat \<Rightarrow> rat" where
  "fsub a b = toDouble (a - b)"

definition isDouble :: "rat \<Rightarrow> bool" where
  "isDouble x = (toDouble x = x)"

text \<open>
  A text item of the rendering engine: its string, its transform matrix when it has
  one, and plain coordinates when it has them.
\<close>

record item =
  item_str :: jstring
  item_transform :: "rat list option"
  item_x :: "rat option"
  item_y :: "rat option"

record mapped =
  m_str :: jstring
  m_x :: rat
  m_y :: rat

record line =
  line_y :: rat
  line_text :: "jstring list"

text \<open>\<open>it.transform?.[i] ?? alt ?? 0\<close>\<close>

definition coord :: "rat list option \<Rightarrow> nat \<Rightarrow> rat option \<Rightarrow> rat" where
  "coord tr i alt =
     (case (case tr of None \<Rightarrow> None | Some t \<Rightarrow> if i < length t then Some (t ! i) else None) of
        Some v \<Rightarrow> v
      | None \<Rightarrow> (case alt of Some v \<Rightarrow> v | None \<Rightarrow> 0))"

definition mapItem :: "item \<Rightarrow> mapped" where
  "mapItem it = \<lparr>m_str = item_str it,
                 m_x = coord (item_transform it) 4 (item_x it),
                 m_y = coord (item_transform it) 5 (item_y it)\<rparr>"

text \<open>
  The comparator \<open>(a, b) => (b.y - a.y) || (a.x - b.x)\<close>, and \<open>Array.prototype.sort\<close>,
  which is stable: a stable insertion sort gives the same array.
\<close>

definition compareItems :: "mapped \<Rightarrow> mapped \<Rightarrow> rat" where
  "compareItems a b =
     (if fsub (m_y b) (m_y a) \<noteq> 0 then fsub (m_y b) (m_y a) else fsub (m_x a) (m_x b))"

fun insertItem :: "mapped \<Rightarrow> mapped list \<Rightarrow> mapped list" where
  "insertItem a [] = [a]"
| "insertItem a (b # bs) = (if compareItems a b \<le> 0 then a # b # bs else b # insertItem a bs)"

definition sortItems :: "mapped list \<Rightarrow> mapped list" where
  "sortItems xs = foldr insertItem xs []"

text \<open>The body of \<open>mapped.forEach\<close>: \<open>lines\<close> is the state.\<close>

definition yThreshold :: rat where
  "yThreshold = 4"

text \<open>
  \<open>prev && !prev.endsWith(' ') && !it.str.startsWith(' ')\<close>: an empty \<open>prev\<close> is
  falsy.
\<close>

definition endsWith :: "jstring \<Rightarrow> jstring \<Rightarrow> bool" where
  "endsWith s suffix =
     (length suffix \<le> length s \<and> drop (length s - length suffix) s = suffix)"

definition startsWith :: "jstring \<Rightarrow> jstring \<Rightarrow> bool" where
  "startsWith s prefix = (take (length prefix) s = prefix)"

definition needsSpace :: "jstring \<Rightarrow> jstring \<Rightarrow> bool" where
  "needsSpace prev s = (prev \<noteq> [] \<and> \<not> endsWith prev [32] \<and> \<not> startsWith s [32])"

definition groupStep :: "line list \<Rightarrow> mapped \<Rightarrow> line list" where
  "groupStep lines it =
     (if lines = [] \<or> \<bar>fsub (line_y (last lines)) (m_y it)\<bar> > yThreshold
      then lines @ [\<lparr>line_y = m_y it, line_text = [m_str it]\<rparr>]
      else
        let lst = last lines;
            prev = (if line_text lst = [] then [] else last (line_text lst))
        in butlast lines @
           [lst\<lparr>line_text := line_text lst @
                   [(if needsSpace prev (m_str it) then [32] else []) @ m_str it]\<rparr>])"

definition groupLines :: "mapped list \<Rightarrow> line list" where
  "groupLines ms = foldl groupStep [] ms"

text \<open>The loop that assembles \<open>result\<close> from \<open>lines\<close>, \<open>i\<close> being the loop counter.\<close>

function assemble :: "line list \<Rightarrow> nat \<Rightarrow> jstring \<Rightarrow> jstring" where
  "assemble lines i result =
     (if i < length lines then
        let result1 = result @ trim (concat (line_text (lines ! i)))
        in if \<not> (i + 1 < length lines) then result1
           else
             let gap = \<bar>fsub (line_y (lines ! i)) (line_y (lines ! (i + 1)))\<bar>
             in assemble lines (i + 1) (result1 @ (if gap > 12 then [10, 10] else [10]))
      else result)"
  by pat_completeness auto
termination
  by (relation "measure (\<lambda>(lines, i, result). length lines - i)") auto

declare assemble.simps [simp del]

definition reconstruct :: "item list \<Rightarrow> jstring" where
  "reconstruct items = assemble (groupLines (sortItems (map mapItem items))) 0 []"

text \<open>\<open>formatTextContent\<close>; \<open>None\<close> stands for a text content without \<open>items\<close>.\<close>

definition basicCleanup :: "jstring \<Rightarrow> jstring" where
  "basicCleanup s =
     replace_all gflags sentenceEndRe [Ref 1, Lit [10, 10]]
       (replace_all gflags threeBreaksRe [Lit [10, 10]]
         (replace_all gflags (seqs [chr 45, nl]) [] s))"

definition formatTextContent :: "item list option \<Rightarrow> jstring" where
  "formatTextContent textContent =
     (let items = (case textContent of None \<Rightarrow> [] | Some its \<Rightarrow> its)
      in trim (cleanAndFormatText (Some (basicCleanup (reconstruct items)))))"


section \<open>Facts about the matcher\<close>

lemma rep_numeral [simp]: "rep (numeral n) r = Seq r (rep (pred_numeral n) r)"
  by (simp add: numeral_eq_Suc)

lemma rep_upto_numeral [simp]: "rep_upto (numeral n) r = Opt (Seq r (rep_upto (pred_numeral n) r))"
  by (simp add: numeral_eq_Suc)

definition lastp :: "nat option \<Rightarrow> jstring \<Rightarrow> nat option" where
  "lastp p u = (if u = [] then p else Some (last u))"

lemma lastp_simps [simp]: "lastp p [] = p" "lastp p (u @ [c]) = Some c"
  by (auto simp: lastp_def)

lemma lastp_append: "lastp (lastp p u) v = lastp p (u @ v)"
  by (auto simp: lastp_def)

lemma lastp_Cons: "lastp p (c # u) = lastp (Some c) u"
  by (auto simp: lastp_def)

text \<open>Every end state is reached by consuming a prefix of the input.\<close>

lemma matches_consumes:
  "(p', s', cs') \<in> set (matches fl r (p, s, cs)) \<Longrightarrow> \<exists>u. s = u @ s' \<and> p' = lastp p u"
proof (induction fl r "(p, s, cs)" arbitrary: p s cs p' s' cs' rule: matches.induct)
  case (1 fl rs p s cs)
  show ?case
  proof (cases s)
    case Nil
    with "1.prems" show ?thesis by simp
  next
    case (Cons c t)
    with "1.prems" have "p' = Some c" "s' = t"
      by (simp_all split: if_splits)
    with Cons show ?thesis by (simp add: lastp_def)
  qed
next
  case (2 fl rs p s cs)
  show ?case
  proof (cases s)
    case Nil
    with "2.prems" show ?thesis by simp
  next
    case (Cons c t)
    with "2.prems" have "p' = Some c" "s' = t"
      by (simp_all split: if_splits)
    with Cons show ?thesis by (simp add: lastp_def)
  qed
next
  case (3 fl)
  then show ?case by simp
next
  case (4 fl a b)
  from "4.prems" obtain p1 s1 cs1 where s1: "(p1, s1, cs1) \<in> set (matches fl a (p, s, cs))"
    and s2: "(p', s', cs') \<in> set (matches fl b (p1, s1, cs1))" by auto
  from "4.hyps"(1)[OF s1] obtain u where u: "s = u @ s1" "p1 = lastp p u" by auto
  from "4.hyps"(2)[OF s1 s2] obtain v where v: "s1 = v @ s'" "p' = lastp p1 v" by auto
  show ?case by (rule exI[of _ "u @ v"]) (use u v in \<open>simp add: lastp_append\<close>)
next
  case (5 fl a b)
  from "5.prems" have "(p', s', cs') \<in> set (matches fl a (p, s, cs)) \<or>
    (p', s', cs') \<in> set (matches fl b (p, s, cs))" by simp
  with "5.hyps" show ?case by blast
next
  case (6 fl a p s cs)
  from "6.prems" have "(p', s', cs') = (p, s, cs) \<or>
      (\<exists>p1 s1 cs1. (p1, s1, cs1) \<in> set (matches fl a (p, s, cs)) \<and> length s1 < length s \<and>
         (p', s', cs') \<in> set (matches fl (Star a) (p1, s1, cs1)))"
    unfolding matches_Star[of fl a p s cs] by (auto split: if_splits)
  then consider "(p', s', cs') = (p, s, cs)"
    | p1 s1 cs1 where "(p1, s1, cs1) \<in> set (matches fl a (p, s, cs))" "length s1 < length s"
        "(p', s', cs') \<in> set (matches fl (Star a) (p1, s1, cs1))"
    by blast
  then show ?case
  proof cases
    case 1
    then show ?thesis by simp
  next
    case 2
    from "6.hyps"(1)[OF 2(1)] obtain u where u: "s = u @ s1" "p1 = lastp p u" by auto
    from "6.hyps"(2)[OF 2(1) _ 2(3)] 2(2) obtain v where v: "s1 = v @ s'" "p' = lastp p1 v" by auto
    show ?thesis by (rule exI[of _ "u @ v"]) (use u v in \<open>simp add: lastp_append\<close>)
  qed
next
  case (7 fl i a p s cs)
  from "7.prems" obtain cs1 where "(p', s', cs1) \<in> set (matches fl a (p, s, cs))" by auto
  with "7.hyps" show ?case by blast
next
  case (8 fl p s cs)
  then show ?case by (simp split: if_splits)
next
  case (9 fl p s cs)
  then show ?case by (simp split: if_splits)
next
  case (10 fl a p s cs)
  then show ?case by (simp split: list.splits)
qed

lemma matches_length: "(p', s', cs') \<in> set (matches fl r (p, s, cs)) \<Longrightarrow> length s' \<le> length s"
  by (drule matches_consumes) auto

text \<open>Patterns that never consume input, and the first code unit a match can begin with.\<close>

fun zero_width :: "re \<Rightarrow> bool" where
  "zero_width (Cls rs) = False"
| "zero_width (NCls rs) = False"
| "zero_width Eps = True"
| "zero_width (Seq a b) = (zero_width a \<and> zero_width b)"
| "zero_width (Alt a b) = (zero_width a \<and> zero_width b)"
| "zero_width (Star a) = zero_width a"
| "zero_width (Grp i a) = zero_width a"
| "zero_width Bol = True"
| "zero_width WordB = True"
| "zero_width (Look a) = True"

fun may_start :: "flags \<Rightarrow> re \<Rightarrow> nat option \<Rightarrow> nat \<Rightarrow> bool" where
  "may_start fl (Cls rs) p c = cls_match (icase fl) rs c"
| "may_start fl (NCls rs) p c = (\<not> cls_match (icase fl) rs c)"
| "may_start fl Eps p c = True"
| "may_start fl (Seq a b) p c = (may_start fl a p c \<and> (if zero_width a then may_start fl b p c else True))"
| "may_start fl (Alt a b) p c = (may_start fl a p c \<or> may_start fl b p c)"
| "may_start fl (Star a) p c = True"
| "may_start fl (Grp i a) p c = may_start fl a p c"
| "may_start fl Bol p c =
     (p = None \<or> (multiline fl \<and> (case p of None \<Rightarrow> False | Some d \<Rightarrow> in_cls lineTerm d)))"
| "may_start fl WordB p c = (is_word_at p \<noteq> is_word_at (Some c))"
| "may_start fl (Look a) p c = may_start fl a p c"

fun nullable :: "re \<Rightarrow> bool" where
  "nullable (Cls rs) = False"
| "nullable (NCls rs) = False"
| "nullable Eps = True"
| "nullable (Seq a b) = (nullable a \<and> nullable b)"
| "nullable (Alt a b) = (nullable a \<or> nullable b)"
| "nullable (Star a) = True"
| "nullable (Grp i a) = nullable a"
| "nullable Bol = True"
| "nullable WordB = True"
| "nullable (Look a) = nullable a"

lemma zero_width_same:
  "zero_width r \<Longrightarrow> (p', s', cs') \<in> set (matches fl r (p, s, cs)) \<Longrightarrow> p' = p \<and> s' = s"
proof (induction fl r "(p, s, cs)" arbitrary: p s cs p' s' cs' rule: matches.induct)
  case (4 fl a b)
  from "4.prems" obtain p1 s1 cs1 where s1: "(p1, s1, cs1) \<in> set (matches fl a (p, s, cs))"
    and s2: "(p', s', cs') \<in> set (matches fl b (p1, s1, cs1))" by auto
  from "4.hyps"(1)[OF _ s1] "4.prems"(1) have "p1 = p \<and> s1 = s" by simp
  moreover from "4.hyps"(2)[OF s1 _ s2] "4.prems"(1) have "p' = p1 \<and> s' = s1" by simp
  ultimately show ?case by simp
next
  case (5 fl a b)
  from "5.prems" have "(p', s', cs') \<in> set (matches fl a (p, s, cs)) \<or>
    (p', s', cs') \<in> set (matches fl b (p, s, cs))" by simp
  with "5.hyps" "5.prems"(1) show ?case by auto
next
  case (6 fl a p s cs)
  from "6.prems"(2) have "(p', s', cs') = (p, s, cs) \<or>
      (\<exists>p1 s1 cs1. (p1, s1, cs1) \<in> set (matches fl a (p, s, cs)) \<and> length s1 < length s \<and>
         (p', s', cs') \<in> set (matches fl (Star a) (p1, s1, cs1)))"
    unfolding matches_Star[of fl a p s cs] by (auto split: if_splits)
  moreover have "\<not> (\<exists>p1 s1 cs1. (p1, s1, cs1) \<in> set (matches fl a (p, s, cs)) \<and> length s1 < length s)"
    using "6.hyps"(1) "6.prems"(1) by fastforce
  ultimately show ?case by blast
next
  case (7 fl i a p s cs)
  from "7.prems" obtain cs1 where "(p', s', cs1) \<in> set (matches fl a (p, s, cs))" by auto
  with "7.hyps" "7.prems"(1) show ?case by auto
next
  case (10 fl a p s cs)
  then show ?case by (simp split: list.splits)
qed (simp_all split: if_splits)

lemma may_start_fails:
  "\<not> may_start fl r p c \<Longrightarrow> matches fl r (p, c # t, cs) = []"
proof (induction r arbitrary: cs)
  case (Seq a b)
  show ?case
  proof (cases "may_start fl a p c")
    case False
    with Seq.IH(1) show ?thesis by simp
  next
    case True
    with Seq.prems have zw: "zero_width a" and nb: "\<not> may_start fl b p c"
      by (auto split: if_splits)
    have "matches fl b st = []" if "st \<in> set (matches fl a (p, c # t, cs))" for st
    proof -
      obtain p1 s1 cs1 where st: "st = (p1, s1, cs1)" by (cases st)
      with zero_width_same[OF zw] that have "p1 = p" "s1 = c # t" by auto
      with st Seq.IH(2)[OF nb] show ?thesis by simp
    qed
    then show ?thesis by (simp add: concat_eq_Nil_conv)
  qed
next
  case (Star a)
  then show ?case by simp
next
  case (Look a)
  then show ?case by simp
qed (auto simp: next_char_def)

lemma not_nullable_fails:
  "\<not> nullable r \<Longrightarrow> matches fl r (p, [], cs) = []"
proof (induction r arbitrary: p cs)
  case (Seq a b)
  show ?case
  proof (cases "nullable a")
    case False
    with Seq.IH(1) show ?thesis by simp
  next
    case True
    with Seq.prems have nb: "\<not> nullable b" by simp
    have "matches fl b st = []" if "st \<in> set (matches fl a (p, [], cs))" for st
    proof -
      obtain p1 s1 cs1 where st: "st = (p1, s1, cs1)" by (cases st)
      with matches_length[of p1 s1 cs1 fl a p "[]" cs] that have "s1 = []" by auto
      with st Seq.IH(2)[OF nb] show ?thesis by simp
    qed
    then show ?thesis by (simp add: concat_eq_Nil_conv)
  qed
qed (auto)

text \<open>The scan, one position at a time.\<close>

lemma scan_Nil:
  "scan fl r p [] = (case match_at fl r p [] of None \<Rightarrow> [] | Some (p', s', cs) \<Rightarrow> [Matched [] cs])"
  by (subst scan.simps) (simp split: option.splits prod.splits)

lemma scan_Cons:
  "scan fl r p (c # t) =
     (if may_start fl r p c then
        (case match_at fl r p (c # t) of
           None \<Rightarrow> Plain c # scan fl r (Some c) t
         | Some (p', s', cs) \<Rightarrow>
             if length s' < Suc (length t)
             then Matched (take (Suc (length t) - length s') (c # t)) cs # scan fl r p' s'
             else Matched [] cs # Plain c # scan fl r (Some c) t)
      else Plain c # scan fl r (Some c) t)"
  by (subst scan.simps) (auto simp add: match_at_def may_start_fails split: list.split)


section \<open>Differences of doubles\<close>

text \<open>
  Every double is a multiple of the smallest positive double, so two different doubles
  differ by at least that much and their rounded difference has the sign of the exact
  one: \<open>a - b\<close> is zero, negative or positive exactly when \<open>a = b\<close>, \<open>a < b\<close> or
  \<open>b < a\<close>.
\<close>

definition minDouble :: rat where
  "minDouble = 2 powi (minExponent - 52)"

lemma ilog2_nonneg: "0 \<le> ilog2 n"
  by (induction n rule: ilog2.induct) (subst ilog2.simps, simp)

lemma ilog2_lower: "1 \<le> n \<Longrightarrow> 2 ^ nat (ilog2 n) \<le> n"
proof (induction n rule: ilog2.induct)
  case (1 n)
  show ?case
  proof (cases "n < 2")
    case True
    with 1 show ?thesis by (subst ilog2.simps) simp
  next
    case False
    then have "2 ^ nat (ilog2 (n div 2)) \<le> n div 2" using 1 by simp
    then have "2 * 2 ^ nat (ilog2 (n div 2)) \<le> n" by linarith
    moreover have "nat (1 + ilog2 (n div 2)) = Suc (nat (ilog2 (n div 2)))"
      using ilog2_nonneg[of "n div 2"] by simp
    ultimately show ?thesis using False by (subst ilog2.simps) simp
  qed
qed

lemma ilog2_upper: "1 \<le> n \<Longrightarrow> n < 2 * 2 ^ nat (ilog2 n)"
proof (induction n rule: ilog2.induct)
  case (1 n)
  show ?case
  proof (cases "n < 2")
    case True
    with 1 show ?thesis by (subst ilog2.simps) simp
  next
    case False
    then have "n div 2 < 2 * 2 ^ nat (ilog2 (n div 2))" using 1 by simp
    then have "n < 2 * (2 * 2 ^ nat (ilog2 (n div 2)))" by linarith
    moreover have "nat (1 + ilog2 (n div 2)) = Suc (nat (ilog2 (n div 2)))"
      using ilog2_nonneg[of "n div 2"] by simp
    ultimately show ?thesis using False by (subst ilog2.simps) simp
  qed
qed

lemma exponent_le:
  assumes "0 < a"
  shows "2 powi (exponent a) \<le> a"
proof (cases "1 \<le> a")
  case True
  then have "1 \<le> \<lfloor>a\<rfloor>" by simp
  then have "2 ^ nat (ilog2 \<lfloor>a\<rfloor>) \<le> \<lfloor>a\<rfloor>" by (rule ilog2_lower)
  then have "(of_int (2 ^ nat (ilog2 \<lfloor>a\<rfloor>)) :: rat) \<le> of_int \<lfloor>a\<rfloor>" by (simp only: of_int_le_iff)
  also have "\<dots> \<le> a" by simp
  finally have "(2::rat) ^ nat (ilog2 \<lfloor>a\<rfloor>) \<le> a" by simp
  then show ?thesis using True ilog2_nonneg[of "\<lfloor>a\<rfloor>"] by (simp add: exponent_def power_int_def)
next
  case False
  define m where "m = \<lfloor>1 / a\<rfloor>"
  define l where "l = ilog2 m"
  have l0: "0 \<le> l" by (simp add: l_def ilog2_nonneg)
  show ?thesis
  proof (cases "2 powi (- l) \<le> a")
    case True
    with False show ?thesis by (simp add: exponent_def Let_def m_def[symmetric] l_def[symmetric])
  next
    case no: False
    from False assms have "1 < 1 / a" by simp
    then have m1: "1 \<le> m" by (simp add: m_def)
    have "1 / a < of_int m + 1" unfolding m_def by linarith
    also have "of_int m + 1 \<le> (of_int (2 * 2 ^ nat l) :: rat)"
      using ilog2_upper[OF m1] unfolding l_def[symmetric]
      by (metis of_int_1 of_int_add of_int_le_iff zless_imp_add1_zle)
    finally have "1 / a < 2 ^ Suc (nat l)" by simp
    then have "1 / 2 ^ Suc (nat l) < a" using assms
      by (simp add: field_simps)
    moreover have "2 powi (- l - 1) = (1::rat) / 2 ^ Suc (nat l)"
      using l0 by (simp add: power_int_def nat_add_distrib field_simps)
    ultimately have "2 powi (- l - 1) \<le> a" by simp
    with False no show ?thesis by (simp add: exponent_def Let_def m_def[symmetric] l_def[symmetric])
  qed
qed



lemma minDouble_pos: "0 < minDouble"
  unfolding minDouble_def by (rule zero_less_power_int) simp

lemma ulp_pos: "0 < ulp a"
  unfolding ulp_def by (rule zero_less_power_int) simp

lemma ulp_grid: "\<exists>k::int. 0 < k \<and> ulp a = of_int k * minDouble"
proof -
  define j where "j = max (exponent a) minExponent - minExponent"
  have j: "0 \<le> j" by (simp add: j_def)
  have "max (exponent a) minExponent - 52 = j + (minExponent - 52)" by (simp add: j_def)
  then have "ulp a = 2 powi (j + (minExponent - 52))" by (simp only: ulp_def)
  also have "\<dots> = 2 powi j * 2 powi (minExponent - 52)"
    by (rule power_int_add) simp
  also have "(2::rat) powi j = of_int (2 ^ nat j)"
    using j by (simp add: power_int_def)
  finally have "ulp a = of_int (2 ^ nat j) * minDouble"
    by (simp add: minDouble_def)
  moreover have "(0::int) < 2 ^ nat j" by simp
  ultimately show ?thesis by blast
qed

lemma ulp_le:
  assumes "minDouble \<le> a"
  shows "ulp a \<le> a"
proof -
  have a: "0 < a" using assms minDouble_pos by linarith
  show ?thesis
  proof (cases "exponent a \<le> minExponent")
    case True
    then have "max (exponent a) minExponent = minExponent" by simp
    then show ?thesis using assms by (simp add: ulp_def minDouble_def)
  next
    case False
    then have "ulp a = 2 powi (exponent a - 52)" by (simp add: ulp_def max_def)
    also have "\<dots> \<le> 2 powi (exponent a)"
      by (rule power_int_increasing) simp_all
    also have "\<dots> \<le> a" by (rule exponent_le[OF a])
    finally show ?thesis .
  qed
qed

lemma roundHalfEven_ge: "\<lfloor>q\<rfloor> \<le> roundHalfEven q"
  by (simp add: roundHalfEven_def Let_def)

lemma toDouble_grid: "\<exists>k::int. toDouble x = of_int k * minDouble"
proof (cases "x = 0")
  case True
  then have "toDouble x = of_int 0 * minDouble" by (simp add: toDouble_def)
  then show ?thesis by blast
next
  case False
  obtain k :: int where k: "ulp \<bar>x\<bar> = of_int k * minDouble" using ulp_grid by blast
  have "\<exists>s::int. sgn x = of_int s"
    by (cases "0 < x") (auto simp: sgn_if intro: exI[of _ 1] exI[of _ "-1"])
  then obtain s :: int where s: "sgn x = of_int s" by blast
  have "toDouble x = of_int (s * roundHalfEven (\<bar>x\<bar> / ulp \<bar>x\<bar>) * k) * minDouble"
    using False by (simp add: toDouble_def s k)
  then show ?thesis by blast
qed

lemma toDouble_pos:
  assumes "minDouble \<le> x"
  shows "0 < toDouble x"
proof -
  have x: "0 < x" using assms minDouble_pos by linarith
  then have ax: "\<bar>x\<bar> = x" by simp
  have "1 \<le> x / ulp x" using ulp_le[OF assms] ulp_pos[of x] by (simp add: field_simps)
  then have "1 \<le> \<lfloor>x / ulp x\<rfloor>" by simp
  then have "1 \<le> roundHalfEven (x / ulp x)" using roundHalfEven_ge[of "x / ulp x"] by linarith
  then have "(0::rat) < of_int (roundHalfEven (x / ulp x))" by simp
  then show ?thesis using x ulp_pos[of x] by (simp add: toDouble_def ax)
qed

lemma toDouble_minus: "toDouble (- x) = - toDouble x"
  by (simp add: toDouble_def)

lemma grid_diff:
  assumes "isDouble a" "isDouble b" "b < a"
  shows "minDouble \<le> a - b"
proof -
  obtain k :: int where k: "toDouble a = of_int k * minDouble" using toDouble_grid by blast
  obtain l :: int where l: "toDouble b = of_int l * minDouble" using toDouble_grid by blast
  have d: "a - b = of_int (k - l) * minDouble"
    using assms k l by (simp add: isDouble_def algebra_simps)
  have "0 < (of_int (k - l) :: rat) * minDouble" using assms(3) d by simp
  then have "(0::rat) < of_int (k - l)" using minDouble_pos by (simp add: zero_less_mult_iff)
  then have "1 \<le> k - l" by simp
  then have "(1::rat) \<le> of_int (k - l)" by (simp only: of_int_1_le_iff)
  then have "1 * minDouble \<le> (of_int (k - l) :: rat) * minDouble"
    using minDouble_pos by (intro mult_right_mono) simp_all
  then show ?thesis using d by simp
qed

lemma fsub_sign:
  assumes "isDouble a" "isDouble b"
  shows "(fsub a b < 0 \<longleftrightarrow> a < b) \<and> (fsub a b = 0 \<longleftrightarrow> a = b) \<and> (0 < fsub a b \<longleftrightarrow> b < a)"
proof -
  consider "a < b" | "a = b" | "b < a" by linarith
  then show ?thesis
  proof cases
    case 1
    have "0 < toDouble (b - a)" by (rule toDouble_pos[OF grid_diff[OF assms(2,1) 1]])
    then have "fsub a b < 0" using toDouble_minus[of "b - a"] by (simp add: fsub_def)
    with 1 show ?thesis by simp
  next
    case 2
    then show ?thesis by (simp add: fsub_def toDouble_def)
  next
    case 3
    have "0 < fsub a b" unfolding fsub_def by (rule toDouble_pos[OF grid_diff[OF assms 3]])
    with 3 show ?thesis by simp
  qed
qed

text \<open>Numbers written in decimal are evaluated by rewriting.\<close>

lemma floor_rat_numeral:
  "\<lfloor>numeral a / numeral b :: rat\<rfloor> = numeral a div numeral b"
  "\<lfloor>1 / numeral b :: rat\<rfloor> = 1 div numeral b"
  by (metis floor_divide_of_int_eq of_int_numeral, metis floor_divide_of_int_eq of_int_numeral of_int_1)

lemma ilog2_numeral:
  "ilog2 (numeral k) = (if (numeral k :: int) < 2 then 0 else 1 + ilog2 (numeral k div 2))"
  "ilog2 1 = 0" "ilog2 0 = 0"
  by (subst ilog2.simps, simp)+

lemma toDouble_numeral:
  "toDouble 0 = 0"
  "toDouble 1 = of_int (roundHalfEven (1 / ulp 1)) * ulp 1"
  "toDouble (numeral a) = of_int (roundHalfEven (numeral a / ulp (numeral a))) * ulp (numeral a)"
  "toDouble (numeral a / numeral b) =
     of_int (roundHalfEven (numeral a / numeral b / ulp (numeral a / numeral b))) *
     ulp (numeral a / numeral b)"
  "toDouble (1 / numeral b) =
     of_int (roundHalfEven (1 / numeral b / ulp (1 / numeral b))) * ulp (1 / numeral b)"
  "toDouble (- x) = - toDouble x"
  by (simp_all add: toDouble_def)

lemmas ev_double = toDouble_numeral fsub_def ulp_def exponent_def roundHalfEven_def minExponent_def
  Let_def floor_rat_numeral ilog2_numeral

lemma double_4_2: "toDouble (21 / 5) = 4728779608739021 / 1125899906842624"
  by (simp add: ev_double)

lemma double_0_2: "toDouble (1 / 5) = 3602879701896397 / 18014398509481984"
  by (simp add: ev_double)

lemma double_12_3: "toDouble (123 / 10) = 3462142213541069 / 281474976710656"
  by (simp add: ev_double)

lemma double_0_3: "toDouble (3 / 10) = 5404319552844595 / 18014398509481984"
  by (simp add: ev_double)


section \<open>Reading order and line grouping\<close>

definition readsBefore :: "mapped \<Rightarrow> mapped \<Rightarrow> bool" where
  "readsBefore a b = (m_y b < m_y a \<or> (m_y a = m_y b \<and> m_x a \<le> m_x b))"

definition doubleCoords :: "mapped \<Rightarrow> bool" where
  "doubleCoords m = (isDouble (m_x m) \<and> isDouble (m_y m))"

lemma compareItems_le:
  assumes "doubleCoords a" "doubleCoords b"
  shows "compareItems a b \<le> 0 \<longleftrightarrow> readsBefore a b"
proof -
  from assms have y: "isDouble (m_y b)" "isDouble (m_y a)" and x: "isDouble (m_x a)" "isDouble (m_x b)"
    by (simp_all add: doubleCoords_def)
  show ?thesis
    using fsub_sign[OF y] fsub_sign[OF x]
    by (auto simp: compareItems_def readsBefore_def)
qed

lemma readsBefore_total: "\<not> readsBefore a b \<Longrightarrow> readsBefore b a"
  by (auto simp: readsBefore_def)

lemma readsBefore_trans: "readsBefore a b \<Longrightarrow> readsBefore b c \<Longrightarrow> readsBefore a c"
  by (auto simp: readsBefore_def)

lemma set_insertItem: "set (insertItem a bs) = insert a (set bs)"
  by (induction bs) auto

lemma mset_insertItem: "mset (insertItem a bs) = add_mset a (mset bs)"
  by (induction bs) auto

lemma sorted_insertItem:
  assumes "doubleCoords a" "\<forall>b \<in> set bs. doubleCoords b" "sorted_wrt readsBefore bs"
  shows "sorted_wrt readsBefore (insertItem a bs)"
  using assms(2,3)
proof (induction bs)
  case Nil
  then show ?case by simp
next
  case (Cons b bs)
  from Cons.prems have b: "doubleCoords b" by simp
  show ?case
  proof (cases "compareItems a b \<le> 0")
    case True
    then have ab: "readsBefore a b" by (simp add: compareItems_le[OF assms(1) b])
    have "readsBefore a c" if "c \<in> set bs" for c
      using Cons.prems that ab by (auto intro: readsBefore_trans)
    with True ab Cons.prems show ?thesis by auto
  next
    case False
    then have "readsBefore b a" by (simp add: compareItems_le[OF assms(1) b] readsBefore_total)
    with False Cons show ?thesis by (auto simp: set_insertItem)
  qed
qed

lemma mset_sortItems: "mset (sortItems ms) = mset ms"
  unfolding sortItems_def by (induction ms) (auto simp: mset_insertItem)

lemma set_sortItems: "set (sortItems ms) = set ms"
  using mset_sortItems[of ms] by (metis set_mset_mset)

lemma sorted_sortItems:
  "\<forall>m \<in> set ms. doubleCoords m \<Longrightarrow> sorted_wrt readsBefore (sortItems ms)"
proof (induction ms)
  case Nil
  show ?case by (simp add: sortItems_def)
next
  case (Cons m ms)
  have "sorted_wrt readsBefore (insertItem m (sortItems ms))"
    using Cons by (intro sorted_insertItem) (simp_all add: set_sortItems)
  then show ?case by (simp add: sortItems_def)
qed

text \<open>
  The sweep as a function of the fragment sequence: the current line has a
  representative \<open>y\<close>, the \<open>y\<close> of its first fragment, and a fragment starts a new line
  when the absolute value of the double-precision difference between the representative
  \<open>y\<close> and its own \<open>y\<close> is more than 4.
\<close>

fun sweep :: "rat \<Rightarrow> mapped list \<Rightarrow> mapped list \<Rightarrow> mapped list list" where
  "sweep ry cur [] = [cur]"
| "sweep ry cur (f # fs) =
     (if \<bar>fsub ry (m_y f)\<bar> > 4 then cur # sweep (m_y f) [f] fs else sweep ry (cur @ [f]) fs)"

definition sweepLines :: "mapped list \<Rightarrow> mapped list list" where
  "sweepLines fs = (case fs of [] \<Rightarrow> [] | f # fs' \<Rightarrow> sweep (m_y f) [f] fs')"

fun spacedParts :: "jstring \<Rightarrow> jstring list \<Rightarrow> jstring list" where
  "spacedParts prev [] = []"
| "spacedParts prev (s # ss) =
     ((if needsSpace prev s then [32] else []) @ s) #
     spacedParts ((if needsSpace prev s then [32] else []) @ s) ss"

definition lineOf :: "mapped list \<Rightarrow> line" where
  "lineOf fs = \<lparr>line_y = m_y (hd fs),
                line_text = (case map m_str fs of [] \<Rightarrow> [] | s # ss \<Rightarrow> s # spacedParts s ss)\<rparr>"

text \<open>The same sweep with the difference taken exactly, as real numbers are subtracted.\<close>

fun sweepExact :: "rat \<Rightarrow> mapped list \<Rightarrow> mapped list \<Rightarrow> mapped list list" where
  "sweepExact ry cur [] = [cur]"
| "sweepExact ry cur (f # fs) =
     (if \<bar>ry - m_y f\<bar> > 4 then cur # sweepExact (m_y f) [f] fs else sweepExact ry (cur @ [f]) fs)"

definition sweepLinesExact :: "mapped list \<Rightarrow> mapped list list" where
  "sweepLinesExact fs = (case fs of [] \<Rightarrow> [] | f # fs' \<Rightarrow> sweepExact (m_y f) [f] fs')"

lemma spacedParts_snoc:
  "spacedParts prev (ss @ [x]) =
     spacedParts prev ss @ [(if needsSpace (last (prev # spacedParts prev ss)) x then [32] else []) @ x]"
  by (induction ss arbitrary: prev) auto

lemma lineOf_snoc:
  assumes "cur \<noteq> []"
  shows "lineOf (cur @ [f]) =
    (lineOf cur)\<lparr>line_text := line_text (lineOf cur) @
       [(if needsSpace (last (line_text (lineOf cur))) (m_str f) then [32] else []) @ m_str f]\<rparr>"
proof -
  from assms obtain c cs where cur: "cur = c # cs" by (cases cur) auto
  show ?thesis
    by (simp add: cur lineOf_def spacedParts_snoc)
qed

lemma lineOf_text_nonempty: "cur \<noteq> [] \<Longrightarrow> line_text (lineOf cur) \<noteq> []"
  by (cases cur) (auto simp: lineOf_def)

lemma groupStep_sweep:
  assumes "cur \<noteq> []"
  shows "foldl groupStep (ls @ [lineOf cur]) fs = ls @ map lineOf (sweep (m_y (hd cur)) cur fs)"
  using assms
proof (induction fs arbitrary: ls cur)
  case Nil
  then show ?case by simp
next
  case (Cons f fs)
  have y: "line_y (lineOf cur) = m_y (hd cur)" by (simp add: lineOf_def)
  show ?case
  proof (cases "\<bar>fsub (m_y (hd cur)) (m_y f)\<bar> > 4")
    case True
    have new: "\<lparr>line_y = m_y f, line_text = [m_str f]\<rparr> = lineOf [f]"
      by (simp add: lineOf_def)
    have "groupStep (ls @ [lineOf cur]) f = (ls @ [lineOf cur]) @ [lineOf [f]]"
      using True by (simp add: groupStep_def y yThreshold_def new)
    then have "foldl groupStep (ls @ [lineOf cur]) (f # fs) =
        foldl groupStep ((ls @ [lineOf cur]) @ [lineOf [f]]) fs" by simp
    also have "\<dots> = (ls @ [lineOf cur]) @ map lineOf (sweep (m_y (hd [f])) [f] fs)"
      by (rule Cons.IH) simp
    finally show ?thesis using True by simp
  next
    case False
    have "groupStep (ls @ [lineOf cur]) f = ls @ [lineOf (cur @ [f])]"
      using False Cons.prems
      by (simp add: groupStep_def y yThreshold_def lineOf_snoc lineOf_text_nonempty Let_def)
    then have "foldl groupStep (ls @ [lineOf cur]) (f # fs) =
        foldl groupStep (ls @ [lineOf (cur @ [f])]) fs" by simp
    also have "\<dots> = ls @ map lineOf (sweep (m_y (hd (cur @ [f]))) (cur @ [f]) fs)"
      by (rule Cons.IH) simp
    finally show ?thesis using False Cons.prems by simp
  qed
qed

lemma groupLines_sweepLines: "groupLines fs = map lineOf (sweepLines fs)"
proof (cases fs)
  case Nil
  then show ?thesis by (simp add: groupLines_def sweepLines_def)
next
  case (Cons f fs')
  have "groupStep [] f = [] @ [lineOf [f]]"
    by (simp add: groupStep_def lineOf_def)
  then have "groupLines fs = foldl groupStep ([] @ [lineOf [f]]) fs'"
    by (simp add: groupLines_def Cons)
  also have "\<dots> = [] @ map lineOf (sweep (m_y (hd [f])) [f] fs')"
    by (rule groupStep_sweep) simp
  finally show ?thesis by (simp add: sweepLines_def Cons)
qed


section \<open>Line and paragraph breaks\<close>

definition lineBreak :: "line \<Rightarrow> line \<Rightarrow> jstring" where
  "lineBreak a b = (if \<bar>fsub (line_y a) (line_y b)\<bar> > 12 then [10, 10] else [10])"

fun joinLines :: "line list \<Rightarrow> jstring" where
  "joinLines [] = []"
| "joinLines [l] = trim (concat (line_text l))"
| "joinLines (l # l' # ls) = trim (concat (line_text l)) @ lineBreak l l' @ joinLines (l' # ls)"

lemma assemble_joinLines: "assemble lines i acc = acc @ joinLines (drop i lines)"
proof (induction "length lines - i" arbitrary: i acc)
  case 0
  then show ?case by (subst assemble.simps) simp
next
  case (Suc n)
  then have i: "i < length lines" by simp
  show ?case
  proof (cases "i + 1 < length lines")
    case False
    with i have "drop i lines = [lines ! i]"
      by (metis Cons_nth_drop_Suc Suc_eq_plus1 drop_all not_less)
    with i False show ?thesis by (subst assemble.simps) simp
  next
    case True
    then have d1: "drop (Suc i) lines = lines ! Suc i # drop (Suc (Suc i)) lines"
      by (simp add: Cons_nth_drop_Suc)
    from i have d: "drop i lines = lines ! i # drop (Suc i) lines"
      by (simp add: Cons_nth_drop_Suc)
    from Suc.hyps(2) have n: "n = length lines - (i + 1)" by simp
    have "assemble lines i acc =
        assemble lines (i + 1)
          (acc @ trim (concat (line_text (lines ! i))) @ lineBreak (lines ! i) (lines ! (i + 1)))"
      using i True by (subst assemble.simps) (simp add: Let_def lineBreak_def)
    also have "\<dots> = (acc @ trim (concat (line_text (lines ! i))) @
        lineBreak (lines ! i) (lines ! (i + 1))) @ joinLines (drop (i + 1) lines)"
      by (rule Suc.hyps(1)[OF n])
    also have "\<dots> = acc @ joinLines (drop i lines)"
      unfolding d by (simp add: d1)
    finally show ?thesis .
  qed
qed

lemma reconstruct_joinLines:
  "reconstruct items = joinLines (groupLines (sortItems (map mapItem items)))"
  by (simp add: reconstruct_def assemble_joinLines)


section \<open>Evaluation rules\<close>

text \<open>
  Concrete inputs are evaluated by rewriting with the defining equations only; the scan
  skips a position at once when the pattern cannot begin with the code unit found there.
\<close>

lemma take_Suc_Cons': "take (Suc n) (x # xs) = x # take n xs"
  by simp

lemma drop_Suc_Cons': "drop (Suc n) (x # xs) = drop n xs"
  by simp

lemma diff_nat_numerals: "(numeral a :: nat) - numeral b = nat (numeral a - numeral b)"
  by simp

lemma last_rules: "last [x] = x" "last (x # y # zs) = last (y # zs)"
  by simp_all

lemma length_rules: "length [] = 0" "length (x # xs) = Suc (length xs)"
  by simp_all

lemma two_less_rules:
  "(2 < Suc (Suc (Suc n))) = True" "(2 < Suc (Suc 0)) = False" "(2 < Suc 0) = False"
  "(2 < (0::nat)) = False"
  by simp_all

lemma js_lits:
  "js ''---'' = [45, 45, 45]"
  "js ''Page'' = [80, 97, 103, 101]"
  "js ''Break'' = [66, 114, 101, 97, 107]"
  "js ''Present'' = [80, 114, 101, 115, 101, 110, 116]"
  "js ''present'' = [112, 114, 101, 115, 101, 110, 116]"
  "js ''Current'' = [67, 117, 114, 114, 101, 110, 116]"
  "js ''current'' = [99, 117, 114, 114, 101, 110, 116]"
  "js '' - '' = [32, 45, 32]"
  "js ''-'' = [45]"
  "js ''Experience'' = [69, 120, 112, 101, 114, 105, 101, 110, 99, 101]"
  "js ''Education'' = [69, 100, 117, 99, 97, 116, 105, 111, 110]"
  "js ''Skills'' = [83, 107, 105, 108, 108, 115]"
  "js ''Languages'' = [76, 97, 110, 103, 117, 97, 103, 101, 115]"
  "js ''Projects'' = [80, 114, 111, 106, 101, 99, 116, 115]"
  "js ''Certifications'' = [67, 101, 114, 116, 105, 102, 105, 99, 97, 116, 105, 111, 110, 115]"
  "js ''References'' = [82, 101, 102, 101, 114, 101, 110, 99, 101, 115]"
  "js ''Responsibilities'' = [82, 101, 115, 112, 111, 110, 115, 105, 98, 105, 108, 105, 116, 105, 101, 115]"
  "js ''Achievements'' = [65, 99, 104, 105, 101, 118, 101, 109, 101, 110, 116, 115]"
  "js ''Key responsibilities'' = [75, 101, 121, 32, 114, 101, 115, 112, 111, 110, 115, 105, 98, 105, 108, 105, 116, 105, 101, 115]"
  "js ''Work Experience'' = [87, 111, 114, 107, 32, 69, 120, 112, 101, 114, 105, 101, 110, 99, 101]"
  "js ''Professional Experience'' = [80, 114, 111, 102, 101, 115, 115, 105, 111, 110, 97, 108, 32, 69, 120, 112, 101, 114, 105, 101, 110, 99, 101]"
  "js ''Technical Skills'' = [84, 101, 99, 104, 110, 105, 99, 97, 108, 32, 83, 107, 105, 108, 108, 115]"
  "js ''Soft Skills'' = [83, 111, 102, 116, 32, 83, 107, 105, 108, 108, 115]"
  "js ''Publications'' = [80, 117, 98, 108, 105, 99, 97, 116, 105, 111, 110, 115]"
  "js ''Awards'' = [65, 119, 97, 114, 100, 115]"
  "js ''Volunteer Work'' = [86, 111, 108, 117, 110, 116, 101, 101, 114, 32, 87, 111, 114, 107]"
  "js ''Interests'' = [73, 110, 116, 101, 114, 101, 115, 116, 115]"
  "js ''Hobbies'' = [72, 111, 98, 98, 105, 101, 115]"
  "js ''Contact Information'' = [67, 111, 110, 116, 97, 99, 116, 32, 73, 110, 102, 111, 114, 109, 97, 116, 105, 111, 110]"
  "js ''Summary'' = [83, 117, 109, 109, 97, 114, 121]"
  "js ''Objective'' = [79, 98, 106, 101, 99, 116, 105, 118, 101]"
  "js ''Personal Statement'' = [80, 101, 114, 115, 111, 110, 97, 108, 32, 83, 116, 97, 116, 101, 109, 101, 110, 116]"
  "js ''Professional Summary'' = [80, 114, 111, 102, 101, 115, 115, 105, 111, 110, 97, 108, 32, 83, 117, 109, 109, 97, 114, 121]"
  "js ''Career Highlights'' = [67, 97, 114, 101, 101, 114, 32, 72, 105, 103, 104, 108, 105, 103, 104, 116, 115]"
  "js ''Project Manager'' = [80, 114, 111, 106, 101, 99, 116, 32, 77, 97, 110, 97, 103, 101, 114]"
  "js ''Head Of'' = [72, 101, 97, 100, 32, 79, 102]"
  "js ''Director'' = [68, 105, 114, 101, 99, 116, 111, 114]"
  "js ''Manager'' = [77, 97, 110, 97, 103, 101, 114]"
  "js ''Engineer'' = [69, 110, 103, 105, 110, 101, 101, 114]"
  "js ''Developer'' = [68, 101, 118, 101, 108, 111, 112, 101, 114]"
  "js ''Designer'' = [68, 101, 115, 105, 103, 110, 101, 114]"
  "js ''Consultant'' = [67, 111, 110, 115, 117, 108, 116, 97, 110, 116]"
  "js ''Analyst'' = [65, 110, 97, 108, 121, 115, 116]"
  "js ''Specialist'' = [83, 112, 101, 99, 105, 97, 108, 105, 115, 116]"
  by (simp_all add: js_def)

lemmas ev_logic = simp_thms if_True if_False list.case option.case prod.case fst_conv snd_conv
  list.inject list.distinct option.inject option.distinct nat.inject nat.distinct
  append.simps list.map concat.simps rev.simps dropWhile.simps length_rules foldl.simps Let_def
  take_Suc_Cons' drop_Suc_Cons' take_0 drop_0 take.simps(1) drop.simps(1)
  diff_Suc_Suc diff_zero diff_0_eq_0 Suc_less_eq zero_less_Suc not_less_zero less_nat_zero_code
  Suc_le_mono le0 not_less_eq_eq
  rel_simps arith_simps diff_nat_numerals nat_numeral nat_neg_numeral nat_0
  map_of_Cons_code last_rules two_less_rules

lemmas ev_re = in_cls.simps matches.simps(1-5,7-10) matches_Star match_at_def scan_Nil scan_Cons
  may_start.simps zero_width.simps nullable.simps expand.simps render.simps full_matches.simps
  replace_all_def matchAll_def group_def cls_match_def is_word_at_def next_char_def
  replace_first.simps
  toUpper_def toLower_def chars_def trim_def flags.sel
  gflags_def giflags_def gimflags_def chr_def letter_def Plus_def Opt_def lit.simps seqs.simps alts.simps
  rep.simps rep_numeral rep_upto.simps rep_upto_numeral pred_numeral_simps
  wordCls_def alphaCls_def digitCls_def lineTerm_def wsCls_def js_lits

lemmas ev_correctText = correctText_def removeSymbols_def joinSpacedLetters_def fixExtraSpaces_def
  pageBreakRe_def yearRangeRe_def monthRangeRe_def sectionHeadersRegex_def sectionHeaders_def dateRanges_def
  sectionBreaks_def hyphenBreakRe_def spaced6_def spaced5_def spaced4_def spaced3_def spaced2_def
  sentenceRe_def monthYear_def multiBreakRe_def
  bullets1_def bullets2_def bullets3_def bullets4_def bullets5_def bullets6_def emojiCls_def codePoint_def
  removeEmoji.simps

lemmas ev_clean = cleanAndFormatText_def fixSpacedLetters_def fixStep_def cleanWhitespace_def basicCleanup_def
  singleLetterPattern_def bulletRe_def hyphenLineRe_def brokenLineRe_def dateRe_def jobTitleRe_def jobTitles_def
  sectionRegex_def sectionHeadersV_def sentenceEndRe_def threeBreaksRe_def pageBreakRe_def monthYear_def
  emojiCls_def codePoint_def removeEmoji.simps

lemmas ev_cong = if_weak_cong option.case_cong_weak list.case_cong_weak prod.case_cong_weak

lemmas ev_reconstruct = reconstruct_def mapItem_def coord_def sortItems_def compareItems_def
  groupLines_def groupStep_def needsSpace_def endsWith_def startsWith_def yThreshold_def
  assemble.simps Let_def trim_def wsCls_def ev_double

section \<open>The lines of a page\<close>

text \<open>A text item with plain coordinates and no transform matrix.\<close>

definition item_at :: "string \<Rightarrow> rat \<Rightarrow> rat \<Rightarrow> item" where
  "item_at s a b = \<lparr>item_str = js s, item_transform = None, item_x = Some a, item_y = Some b\<rparr>"

text \<open>
  Two fragments whose \<open>y\<close> are the doubles nearest to 4.2 and to 0.2, and four fragments
  at \<open>y\<close> 93, 97, 94 and 100, given out of order.
\<close>

definition nearFragments :: "item list" where
  "nearFragments = [item_at ''1'' 0 (toDouble (21 / 5)), item_at ''2'' 0 (toDouble (1 / 5))]"

definition fourFragments :: "item list" where
  "fourFragments = [item_at ''4'' 0 93, item_at ''2'' 0 97, item_at ''3'' 0 94, item_at ''1'' 0 100]"

lemma mapItem_item_at: "mapItem (item_at s a b) = \<lparr>m_str = js s, m_x = a, m_y = b\<rparr>"
  by (simp add: mapItem_def item_at_def coord_def)

lemma sorted_nearFragments:
  "sortItems (map mapItem nearFragments) =
     [\<lparr>m_str = [49], m_x = 0, m_y = 4728779608739021 / 1125899906842624\<rparr>,
      \<lparr>m_str = [50], m_x = 0, m_y = 3602879701896397 / 18014398509481984\<rparr>]"
  by (simp add: nearFragments_def mapItem_item_at double_4_2 double_0_2 js_def sortItems_def
      compareItems_def ev_double)

lemma groupLines_nearFragments:
  "groupLines (sortItems (map mapItem nearFragments)) =
     [\<lparr>line_y = 4728779608739021 / 1125899906842624, line_text = [[49], [32, 50]]\<rparr>]"
  unfolding sorted_nearFragments
  by (simp add: groupLines_def groupStep_def needsSpace_def endsWith_def startsWith_def
      yThreshold_def ev_double)

lemma sweepLinesExact_nearFragments:
  "map (map m_str) (sweepLinesExact (sortItems (map mapItem nearFragments))) = [[[49]], [[50]]]"
  unfolding sorted_nearFragments by (simp add: sweepLinesExact_def)

lemma reconstruct_nearFragments: "reconstruct nearFragments = [49, 32, 50]"
  unfolding reconstruct_def groupLines_nearFragments
  by (simp add: assemble.simps trim_def wsCls_def)

lemma pipeline_1_2: "trim (cleanAndFormatText (Some (basicCleanup [49, 32, 50]))) = [49, 32, 50]"
  by (simp only: ev_logic ev_re ev_clean cong: ev_cong)

text \<open>
  Claim C1 fails as worded: the doubles nearest to 4.2 and to 0.2 differ by more than 4
  (by \<open>3 / 2 ^ 54\<close> more), so the sweep of the claim puts the two fragments on two lines;
  the program computes their difference in double precision, where it is exactly 4, and
  puts both on one line: \<open>formatTextContent\<close> returns "1 2".
\<close>

theorem line_threshold_counterexample:
  "4 < \<bar>toDouble (21 / 5) - toDouble (1 / 5)\<bar> \<and>
   map (map m_str) (sweepLinesExact (sortItems (map mapItem nearFragments))) = [[js ''1''], [js ''2'']] \<and>
   fsub (toDouble (21 / 5)) (toDouble (1 / 5)) = 4 \<and>
   map line_text (groupLines (sortItems (map mapItem nearFragments))) = [[js ''1'', js '' 2'']] \<and>
   formatTextContent (Some nearFragments) = js ''1 2''"
proof (intro conjI)
  show "4 < \<bar>toDouble (21 / 5) - toDouble (1 / 5)\<bar>"
    unfolding double_4_2 double_0_2 by simp
  show "map (map m_str) (sweepLinesExact (sortItems (map mapItem nearFragments))) = [[js ''1''], [js ''2'']]"
    by (simp add: sweepLinesExact_nearFragments js_def)
  show "fsub (toDouble (21 / 5)) (toDouble (1 / 5)) = 4"
    unfolding double_4_2 double_0_2 by (simp add: ev_double)
  show "map line_text (groupLines (sortItems (map mapItem nearFragments))) = [[js ''1'', js '' 2'']]"
    by (simp add: groupLines_nearFragments js_def)
  show "formatTextContent (Some nearFragments) = js ''1 2''"
    by (simp add: formatTextContent_def reconstruct_nearFragments pipeline_1_2) (simp add: js_def)
qed

text \<open>
  Claim C1, amended. For fragments whose coordinates are doubles, \<open>formatTextContent\<close>
  first puts them in reading order, by descending \<open>y\<close> and for equal \<open>y\<close> by ascending
  \<open>x\<close> (the sorted array is ordered so and holds the same fragments); then its sweep
  over the sorted array builds exactly the lines of \<open>sweepLines\<close>: a fragment starts a
  new line exactly when the absolute value of the double-precision difference between
  the representative \<open>y\<close> of the current line and its own \<open>y\<close> exceeds 4, the
  representative \<open>y\<close> being the \<open>y\<close> of the first fragment of the line, never changed.
  The result of \<open>formatTextContent\<close> is assembled from these lines.
\<close>

theorem lines_follow_reading_order_and_threshold:
  assumes "\<forall>it \<in> set items. doubleCoords (mapItem it)"
  shows "sorted_wrt readsBefore (sortItems (map mapItem items)) \<and>
    mset (sortItems (map mapItem items)) = mset (map mapItem items) \<and>
    groupLines (sortItems (map mapItem items)) =
      map lineOf (sweepLines (sortItems (map mapItem items))) \<and>
    formatTextContent (Some items) =
      trim (cleanAndFormatText (Some (basicCleanup
        (assemble (map lineOf (sweepLines (sortItems (map mapItem items)))) 0 []))))"
proof -
  have "sorted_wrt readsBefore (sortItems (map mapItem items))"
    using assms by (intro sorted_sortItems) simp
  moreover have "formatTextContent (Some items) =
      trim (cleanAndFormatText (Some (basicCleanup
        (assemble (map lineOf (sweepLines (sortItems (map mapItem items)))) 0 []))))"
    by (simp add: formatTextContent_def reconstruct_def groupLines_sweepLines)
  ultimately show ?thesis
    by (simp add: mset_sortItems groupLines_sweepLines)
qed

text \<open>
  The four fragments are sorted to \<open>y\<close> 100, 97, 94, 93. The fragment at 97 joins the
  line of 100; the fragment at 94 is within 4 of 97 but 6 away from the representative
  100, so it starts a new line, which the fragment at 93 joins.
\<close>

lemma doubleCoords_fourFragments: "\<forall>it \<in> set fourFragments. doubleCoords (mapItem it)"
  by (simp add: fourFragments_def mapItem_item_at doubleCoords_def isDouble_def ev_double)

lemma sorted_fourFragments:
  "map m_y (sortItems (map mapItem fourFragments)) = [100, 97, 94, 93]"
  by (simp add: fourFragments_def mapItem_item_at sortItems_def compareItems_def ev_double)

lemma sweepLines_fourFragments:
  "map (map m_y) (sweepLines (sortItems (map mapItem fourFragments))) = [[100, 97], [94, 93]]"
  by (simp add: fourFragments_def mapItem_item_at sortItems_def compareItems_def sweepLines_def
      ev_double)

theorem lines_follow_reading_order_and_threshold_witness:
  "sorted_wrt readsBefore (sortItems (map mapItem fourFragments)) \<and>
   mset (sortItems (map mapItem fourFragments)) = mset (map mapItem fourFragments) \<and>
   groupLines (sortItems (map mapItem fourFragments)) =
     map lineOf (sweepLines (sortItems (map mapItem fourFragments))) \<and>
   formatTextContent (Some fourFragments) =
     trim (cleanAndFormatText (Some (basicCleanup
       (assemble (map lineOf (sweepLines (sortItems (map mapItem fourFragments)))) 0 [])))) \<and>
   map m_y (sortItems (map mapItem fourFragments)) = [100, 97, 94, 93] \<and>
   map (map m_y) (sweepLines (sortItems (map mapItem fourFragments))) = [[100, 97], [94, 93]]"
  using lines_follow_reading_order_and_threshold[OF doubleCoords_fourFragments]
    sorted_fourFragments sweepLines_fourFragments
  by blast


section \<open>Breaks between the lines\<close>

lemma reconstruct_Hello_World_95:
  "reconstruct [item_at ''Hello'' 0 100, item_at ''World'' 0 95] =
     [72, 101, 108, 108, 111, 10, 87, 111, 114, 108, 100]"
  by (simp add: item_at_def js_def ev_reconstruct)

lemma reconstruct_Hello_World_80:
  "reconstruct [item_at ''Hello'' 0 100, item_at ''World'' 0 80] =
     [72, 101, 108, 108, 111, 10, 10, 87, 111, 114, 108, 100]"
  by (simp add: item_at_def js_def ev_reconstruct)

lemma reconstruct_rounded_gap:
  "reconstruct [item_at ''Hello'' 0 (toDouble (123 / 10)), item_at ''World'' 0 (toDouble (3 / 10))] =
     [72, 101, 108, 108, 111, 10, 87, 111, 114, 108, 100]"
  unfolding double_12_3 double_0_3
  by (simp add: item_at_def js_def ev_reconstruct)

lemma pipeline_Hello_World_95:
  "trim (cleanAndFormatText (Some (basicCleanup [72, 101, 108, 108, 111, 10, 87, 111, 114, 108, 100]))) =
     [72, 101, 108, 108, 111, 32, 87, 111, 114, 108, 100]"
  by (simp only: ev_logic ev_re ev_clean cong: ev_cong)

lemma pipeline_Hello_World_80:
  "trim (cleanAndFormatText (Some (basicCleanup [72, 101, 108, 108, 111, 10, 10, 87, 111, 114, 108, 100]))) =
     [72, 101, 108, 108, 111, 32, 87, 111, 114, 108, 100]"
  by (simp only: ev_logic ev_re ev_clean cong: ev_cong)

lemma formatTextContent_Hello_World_95:
  "formatTextContent (Some [item_at ''Hello'' 0 100, item_at ''World'' 0 95]) = js ''Hello World''"
  by (simp add: formatTextContent_def reconstruct_Hello_World_95 pipeline_Hello_World_95)
     (simp add: js_def)

text \<open>
  Claim C2 fails as worded. For the lines "Hello" at \<open>y\<close> 100 and "World" at \<open>y\<close> 95
  the loop writes \<open>\n\<close> between them, but \<open>formatTextContent\<close> returns "Hello World":
  the later pass that joins words broken across lines replaces a line break between two
  letters by a space. For the lines at 100 and 80 the loop writes \<open>\n\n\<close>, and the
  result is "Hello World" as well. And the gap is a double-precision difference: the
  doubles nearest to 12.3 and to 0.3 differ by more than 12, yet the loop writes a
  single \<open>\n\<close> between lines at these \<open>y\<close>.
\<close>

theorem paragraph_break_counterexample:
  "reconstruct [item_at ''Hello'' 0 100, item_at ''World'' 0 95] = js ''Hello'' @ [10] @ js ''World'' \<and>
   formatTextContent (Some [item_at ''Hello'' 0 100, item_at ''World'' 0 95]) = js ''Hello World'' \<and>
   reconstruct [item_at ''Hello'' 0 100, item_at ''World'' 0 80] = js ''Hello'' @ [10, 10] @ js ''World'' \<and>
   formatTextContent (Some [item_at ''Hello'' 0 100, item_at ''World'' 0 80]) = js ''Hello World'' \<and>
   12 < \<bar>toDouble (123 / 10) - toDouble (3 / 10)\<bar> \<and>
   reconstruct [item_at ''Hello'' 0 (toDouble (123 / 10)), item_at ''World'' 0 (toDouble (3 / 10))] =
     js ''Hello'' @ [10] @ js ''World''"
proof (intro conjI)
  show "reconstruct [item_at ''Hello'' 0 100, item_at ''World'' 0 95] = js ''Hello'' @ [10] @ js ''World''"
    by (simp add: reconstruct_Hello_World_95 js_def)
  show "formatTextContent (Some [item_at ''Hello'' 0 100, item_at ''World'' 0 95]) = js ''Hello World''"
    by (rule formatTextContent_Hello_World_95)
  show "reconstruct [item_at ''Hello'' 0 100, item_at ''World'' 0 80] = js ''Hello'' @ [10, 10] @ js ''World''"
    by (simp add: reconstruct_Hello_World_80 js_def)
  show "formatTextContent (Some [item_at ''Hello'' 0 100, item_at ''World'' 0 80]) = js ''Hello World''"
    by (simp add: formatTextContent_def reconstruct_Hello_World_80 pipeline_Hello_World_80)
       (simp add: js_def)
  show "12 < \<bar>toDouble (123 / 10) - toDouble (3 / 10)\<bar>"
    unfolding double_12_3 double_0_3 by simp
  show "reconstruct [item_at ''Hello'' 0 (toDouble (123 / 10)), item_at ''World'' 0 (toDouble (3 / 10))] =
     js ''Hello'' @ [10] @ js ''World''"
    by (simp add: reconstruct_rounded_gap js_def)
qed

text \<open>
  Claim C2, amended. Between two consecutive lines the assembling loop of
  \<open>formatTextContent\<close> writes the paragraph break \<open>\n\n\<close> exactly when the absolute value
  of the double-precision difference of their representative \<open>y\<close> values exceeds 12, and
  a single \<open>\n\<close> otherwise; lines at 100 and 80 get \<open>\n\n\<close>, lines at 100 and 95 get
  \<open>\n\<close>. The string so assembled is not yet the result: \<open>formatTextContent\<close> returns it
  after its clean-up passes, which rewrite separators; for "Hello" at 100 and "World"
  at 95 the line break between the two words becomes a space.
\<close>

theorem breaks_between_lines:
  "assemble lines 0 [] = joinLines lines \<and>
   assemble [a, b] 0 [] =
     trim (concat (line_text a)) @
     (if \<bar>fsub (line_y a) (line_y b)\<bar> > 12 then [10, 10] else [10]) @
     trim (concat (line_text b)) \<and>
   assemble [\<lparr>line_y = 100, line_text = t1\<rparr>, \<lparr>line_y = 80, line_text = t2\<rparr>] 0 [] =
     trim (concat t1) @ [10, 10] @ trim (concat t2) \<and>
   assemble [\<lparr>line_y = 100, line_text = t1\<rparr>, \<lparr>line_y = 95, line_text = t2\<rparr>] 0 [] =
     trim (concat t1) @ [10] @ trim (concat t2) \<and>
   formatTextContent (Some items) =
     trim (cleanAndFormatText (Some (basicCleanup
       (joinLines (groupLines (sortItems (map mapItem items))))))) \<and>
   formatTextContent (Some [item_at ''Hello'' 0 100, item_at ''World'' 0 95]) = js ''Hello World''"
proof (intro conjI)
  show "assemble lines 0 [] = joinLines lines"
    by (simp add: assemble_joinLines)
  show "assemble [a, b] 0 [] =
     trim (concat (line_text a)) @
     (if \<bar>fsub (line_y a) (line_y b)\<bar> > 12 then [10, 10] else [10]) @
     trim (concat (line_text b))"
    by (simp add: assemble_joinLines lineBreak_def)
  show "assemble [\<lparr>line_y = 100, line_text = t1\<rparr>, \<lparr>line_y = 80, line_text = t2\<rparr>] 0 [] =
     trim (concat t1) @ [10, 10] @ trim (concat t2)"
    by (simp add: assemble_joinLines lineBreak_def ev_double)
  show "assemble [\<lparr>line_y = 100, line_text = t1\<rparr>, \<lparr>line_y = 95, line_text = t2\<rparr>] 0 [] =
     trim (concat t1) @ [10] @ trim (concat t2)"
    by (simp add: assemble_joinLines lineBreak_def ev_double)
  show "formatTextContent (Some items) =
     trim (cleanAndFormatText (Some (basicCleanup
       (joinLines (groupLines (sortItems (map mapItem items)))))))"
    by (simp add: formatTextContent_def reconstruct_joinLines)
  show "formatTextContent (Some [item_at ''Hello'' 0 100, item_at ''World'' 0 95]) = js ''Hello World''"
    by (rule formatTextContent_Hello_World_95)
qed


section \<open>Spaces between the parts of a line\<close>

lemma reconstruct_Hello_World:
  "reconstruct [item_at ''Hello'' 0 100, item_at ''World'' 50 100] =
     [72, 101, 108, 108, 111, 32, 87, 111, 114, 108, 100]"
  by (simp add: item_at_def js_def ev_reconstruct)

lemma pipeline_Hello_World:
  "trim (cleanAndFormatText (Some (basicCleanup [72, 101, 108, 108, 111, 32, 87, 111, 114, 108, 100]))) =
     [72, 101, 108, 108, 111, 32, 87, 111, 114, 108, 100]"
  by (simp only: ev_logic ev_re ev_clean cong: ev_cong)

lemma formatTextContent_Hello_World:
  "formatTextContent (Some [item_at ''Hello'' 0 100, item_at ''World'' 50 100]) = js ''Hello World''"
  by (simp add: formatTextContent_def reconstruct_Hello_World pipeline_Hello_World) (simp add: js_def)

text \<open>
  Claim C3 as it is worded: a space is inserted if and only if neither the previous part
  ends with white space nor the new part begins with white space.
\<close>

definition spaceAsClaimed :: "jstring \<Rightarrow> jstring \<Rightarrow> bool" where
  "spaceAsClaimed prev s =
     (\<not> (prev \<noteq> [] \<and> in_cls wsCls (last prev)) \<and> \<not> (s \<noteq> [] \<and> in_cls wsCls (hd s)))"

text \<open>
  Claim C3 fails as worded: after an empty previous part no space is inserted although
  neither part has white space at the joint, and after a part that ends with a tab a space
  is inserted.
\<close>

theorem space_rule_counterexample:
  "spaceAsClaimed [] (js ''World'') \<and> \<not> needsSpace [] (js ''World'') \<and>
   groupLines [\<lparr>m_str = [], m_x = 0, m_y = 100\<rparr>, \<lparr>m_str = js ''World'', m_x = 50, m_y = 100\<rparr>] =
     [\<lparr>line_y = 100, line_text = [[], js ''World'']\<rparr>] \<and>
   \<not> spaceAsClaimed (js ''a'' @ [9]) (js ''b'') \<and> needsSpace (js ''a'' @ [9]) (js ''b'') \<and>
   groupLines [\<lparr>m_str = js ''a'' @ [9], m_x = 0, m_y = 100\<rparr>, \<lparr>m_str = js ''b'', m_x = 50, m_y = 100\<rparr>] =
     [\<lparr>line_y = 100, line_text = [js ''a'' @ [9], js '' b'']\<rparr>]"
  by (simp add: spaceAsClaimed_def needsSpace_def endsWith_def startsWith_def js_def wsCls_def
      groupLines_def groupStep_def yThreshold_def ev_double)

lemma needsSpace_iff:
  "needsSpace prev s = (prev \<noteq> [] \<and> last prev \<noteq> 32 \<and> \<not> (s \<noteq> [] \<and> hd s = 32))"
proof -
  have e: "endsWith prev [32] = (prev \<noteq> [] \<and> last prev = 32)"
  proof (cases prev rule: rev_cases)
    case Nil
    then show ?thesis by (simp add: endsWith_def)
  next
    case (snoc ys y)
    then show ?thesis by (auto simp: endsWith_def)
  qed
  have s: "startsWith s [32] = (s \<noteq> [] \<and> hd s = 32)"
    by (cases s) (auto simp: startsWith_def)
  show ?thesis by (auto simp: needsSpace_def e s)
qed

text \<open>
  Claim C3, amended. When a fragment is appended to the current line, a single space is
  put before it if and only if the previous part is not empty and does not end with the
  space U+0020 and the new part does not begin with the space U+0020; the fragments
  "Hello" at (0, 100) and "World" at (50, 100) give "Hello World".
\<close>

theorem space_between_parts:
  "needsSpace prev s = (prev \<noteq> [] \<and> last prev \<noteq> 32 \<and> \<not> (s \<noteq> [] \<and> hd s = 32)) \<and>
   groupStep (ls @ [l]) it =
     (if \<bar>fsub (line_y l) (m_y it)\<bar> > 4
      then ls @ [l, \<lparr>line_y = m_y it, line_text = [m_str it]\<rparr>]
      else ls @ [l\<lparr>line_text := line_text l @
             [(if needsSpace (if line_text l = [] then [] else last (line_text l)) (m_str it)
               then [32] else []) @ m_str it]\<rparr>]) \<and>
   formatTextContent (Some [item_at ''Hello'' 0 100, item_at ''World'' 50 100]) = js ''Hello World''"
proof (intro conjI)
  show "needsSpace prev s = (prev \<noteq> [] \<and> last prev \<noteq> 32 \<and> \<not> (s \<noteq> [] \<and> hd s = 32))"
    by (rule needsSpace_iff)
  show "groupStep (ls @ [l]) it =
     (if \<bar>fsub (line_y l) (m_y it)\<bar> > 4
      then ls @ [l, \<lparr>line_y = m_y it, line_text = [m_str it]\<rparr>]
      else ls @ [l\<lparr>line_text := line_text l @
             [(if needsSpace (if line_text l = [] then [] else last (line_text l)) (m_str it)
               then [32] else []) @ m_str it]\<rparr>])"
    by (simp add: groupStep_def yThreshold_def Let_def)
  show "formatTextContent (Some [item_at ''Hello'' 0 100, item_at ''World'' 50 100]) = js ''Hello World''"
    by (rule formatTextContent_Hello_World)
qed


section \<open>White space\<close>

text \<open>A greedy star over a character class first takes the longest run of the class.\<close>

lemma star_cls_first:
  "\<exists>rest. matches fl (Star (Cls rs)) (p, s, cs) =
     (lastp p (takeWhile (cls_match (icase fl) rs) s), dropWhile (cls_match (icase fl) rs) s, cs) # rest"
proof (induction s arbitrary: p)
  case Nil
  show ?case by (simp add: matches_Star)
next
  case (Cons c t)
  show ?case
  proof (cases "cls_match (icase fl) rs c")
    case False
    then show ?thesis by (simp add: matches_Star)
  next
    case True
    from Cons[of "Some c"] obtain rest where
      "matches fl (Star (Cls rs)) (Some c, t, cs) =
        (lastp (Some c) (takeWhile (cls_match (icase fl) rs) t), dropWhile (cls_match (icase fl) rs) t, cs) # rest"
      by blast
    with True show ?thesis by (simp add: matches_Star[of fl "Cls rs" p "c # t"] lastp_Cons)
  qed
qed

text \<open>
  The collapse of white space as a function on strings: a run of white space becomes one
  space.
\<close>

function squeeze :: "jstring \<Rightarrow> jstring" where
  "squeeze [] = []"
| "squeeze (c # t) =
     (if in_cls wsCls c then 32 # squeeze (dropWhile (in_cls wsCls) t) else c # squeeze t)"
  by pat_completeness auto
termination
  by (relation "measure length") (auto simp: length_dropWhile_le less_Suc_eq_le)

lemma cls_match_plain [simp]: "cls_match False rs = in_cls rs"
  by (rule ext) (simp add: cls_match_def)

lemma scan_ws_squeeze: "render [Lit [32]] (scan gflags (Plus ws) p s) = squeeze s"
proof (induction s arbitrary: p rule: squeeze.induct)
  case 1
  show ?case by (simp add: scan_Nil match_at_def Plus_def gflags_def)
next
  case (2 c t)
  show ?case
  proof (cases "in_cls wsCls c")
    case False
    then have "match_at gflags (Plus ws) p (c # t) = None"
      by (simp add: match_at_def Plus_def gflags_def)
    with False "2.IH"(2) show ?thesis by (subst scan.simps) simp
  next
    case True
    obtain rest where r: "matches gflags (Star ws) (Some c, t, []) =
        (lastp (Some c) (takeWhile (in_cls wsCls) t), dropWhile (in_cls wsCls) t, []) # rest"
      using star_cls_first[of gflags wsCls "Some c" t "[]"] by (auto simp: gflags_def)
    from True r have m: "match_at gflags (Plus ws) p (c # t) =
        Some (lastp (Some c) (takeWhile (in_cls wsCls) t), dropWhile (in_cls wsCls) t, [])"
      by (simp add: match_at_def Plus_def gflags_def)
    have len: "length (dropWhile (in_cls wsCls) t) < length (c # t)"
      by (simp add: length_dropWhile_le less_Suc_eq_le)
    show ?thesis
      using True len "2.IH"(1)[OF True] by (subst scan.simps) (simp add: m)
  qed
qed

lemma fixExtraSpaces_squeeze: "fixExtraSpaces s = trim (squeeze s)"
  by (simp add: fixExtraSpaces_def replace_all_def scan_ws_squeeze)

lemma squeeze_ws: "c \<in> set (squeeze s) \<Longrightarrow> in_cls wsCls c \<Longrightarrow> c = 32"
proof (induction s rule: squeeze.induct)
  case 1
  then show ?case by simp
next
  case (2 d t)
  then show ?case by (auto split: if_splits)
qed

lemma squeeze_filter:
  "filter (\<lambda>c. \<not> in_cls wsCls c) (squeeze s) = filter (\<lambda>c. \<not> in_cls wsCls c) s"
proof (induction s rule: squeeze.induct)
  case 1
  show ?case by simp
next
  case (2 c t)
  have ws32: "in_cls wsCls 32" by (simp add: wsCls_def)
  have f: "filter (\<lambda>c. \<not> in_cls wsCls c) (dropWhile (in_cls wsCls) t) = filter (\<lambda>c. \<not> in_cls wsCls c) t"
    by (induction t) auto
  show ?case using 2 ws32 f by auto
qed

lemma trim_filter:
  "filter (\<lambda>c. \<not> in_cls wsCls c) (trim s) = filter (\<lambda>c. \<not> in_cls wsCls c) s"
proof -
  have f: "filter (\<lambda>c. \<not> in_cls wsCls c) (dropWhile (in_cls wsCls) t) = filter (\<lambda>c. \<not> in_cls wsCls c) t" for t
    by (induction t) auto
  have "filter (\<lambda>c. \<not> in_cls wsCls c) (trim s) =
      rev (filter (\<lambda>c. \<not> in_cls wsCls c) (dropWhile (in_cls wsCls) (rev (dropWhile (in_cls wsCls) s))))"
    by (simp add: trim_def rev_filter)
  also have "\<dots> = filter (\<lambda>c. \<not> in_cls wsCls c) (dropWhile (in_cls wsCls) s)"
    by (simp add: f rev_filter)
  finally show ?thesis by (simp add: f)
qed

lemma set_trim: "set (trim s) \<subseteq> set s"
proof
  fix c
  assume "c \<in> set (trim s)"
  then have "c \<in> set (dropWhile (in_cls wsCls) (rev (dropWhile (in_cls wsCls) s)))"
    by (simp add: trim_def)
  then have "c \<in> set (rev (dropWhile (in_cls wsCls) s))"
    by (rule set_dropWhileD)
  then have "c \<in> set (dropWhile (in_cls wsCls) s)"
    by simp
  then show "c \<in> set s"
    by (rule set_dropWhileD)
qed

lemma no_newline_after_fixExtraSpaces: "10 \<notin> set (fixExtraSpaces s)"
proof
  assume "10 \<in> set (fixExtraSpaces s)"
  then have "10 \<in> set (squeeze s)" using set_trim by (auto simp: fixExtraSpaces_squeeze)
  moreover have "in_cls wsCls 10" by (simp add: wsCls_def)
  ultimately have "(10::nat) = 32" by (rule squeeze_ws)
  then show False by simp
qed

text \<open>
  Claim C5 fails as worded: the white-space step of \<open>correctText\<close> turns the line
  break and the paragraph break between two words into a single space.
\<close>

theorem white_space_step_counterexample:
  "fixExtraSpaces (js ''a'' @ [10, 10] @ js ''b'') = js ''a b'' \<and>
   fixExtraSpaces (js ''a'' @ [10] @ js ''b'') = js ''a b''"
  by (simp add: fixExtraSpaces_squeeze js_def trim_def wsCls_def)

text \<open>
  Claim C5, amended. For every input string the white-space step of \<open>correctText\<close>
  replaces each run of white space, line breaks included, by a single space and trims the
  result: no line break survives the step, and the characters that are not white space
  are kept, in their order.
\<close>

theorem white_space_step_flattens:
  "fixExtraSpaces s = trim (squeeze s) \<and> 10 \<notin> set (fixExtraSpaces s) \<and>
   filter (\<lambda>c. \<not> in_cls wsCls c) (fixExtraSpaces s) = filter (\<lambda>c. \<not> in_cls wsCls c) s"
  by (simp add: no_newline_after_fixExtraSpaces) (simp add: fixExtraSpaces_squeeze trim_filter squeeze_filter)

text \<open>
  The white-space step of \<open>cleanAndFormatText\<close> keeps a line break but merges a
  paragraph break into one: \<open>/\n\s+/\<close> also takes the line breaks that follow.
\<close>

lemma cleanWhitespace_merges_paragraphs:
  "cleanWhitespace [97, 10, 10, 98] = [97, 10, 98]"
  by (simp only: ev_logic ev_re ev_clean cong: ev_cong)


section \<open>Characters of the output\<close>

definition caps_in :: "nat set \<Rightarrow> caps \<Rightarrow> bool" where
  "caps_in A cs = (\<forall>x \<in> set cs. set (snd x) \<subseteq> A)"

lemma caps_in_Nil [simp]: "caps_in A []"
  by (simp add: caps_in_def)

lemma caps_in_Cons [simp]: "caps_in A ((i, g) # cs) = (set g \<subseteq> A \<and> caps_in A cs)"
  by (auto simp: caps_in_def)

lemma caps_in_group: "caps_in A cs \<Longrightarrow> set (group cs i) \<subseteq> A"
proof (cases "map_of cs i")
  case None
  then show ?thesis by (simp add: group_def)
next
  case (Some g)
  assume a: "caps_in A cs"
  from Some have "(i, g) \<in> set cs" by (rule map_of_SomeD)
  with a have "set (snd (i, g)) \<subseteq> A" unfolding caps_in_def by (rule bspec)
  then have "set g \<subseteq> A" by simp
  with Some show ?thesis by (simp add: group_def)
qed

text \<open>Captures are pieces of the input.\<close>

lemma matches_caps:
  "(p', s', cs') \<in> set (matches fl r (p, s, cs)) \<Longrightarrow> set s \<subseteq> A \<Longrightarrow> caps_in A cs \<Longrightarrow>
     caps_in A cs'"
proof (induction fl r "(p, s, cs)" arbitrary: p s cs p' s' cs' rule: matches.induct)
  case (1 fl rs p s cs)
  then show ?case by (cases s) (auto split: if_splits)
next
  case (2 fl rs p s cs)
  then show ?case by (cases s) (simp_all split: if_splits)
next
  case (3 fl)
  then show ?case by simp
next
  case (4 fl a b)
  from "4.prems" obtain p1 s1 cs1 where s1: "(p1, s1, cs1) \<in> set (matches fl a (p, s, cs))"
    and s2: "(p', s', cs') \<in> set (matches fl b (p1, s1, cs1))" by auto
  from matches_consumes[OF s1] "4.prems"(2) have "set s1 \<subseteq> A" by auto
  moreover from "4.hyps"(1)[OF s1] "4.prems" have "caps_in A cs1" by simp
  ultimately show ?case using "4.hyps"(2)[OF s1 s2] by simp
next
  case (5 fl a b)
  from "5.prems" have "(p', s', cs') \<in> set (matches fl a (p, s, cs)) \<or>
    (p', s', cs') \<in> set (matches fl b (p, s, cs))" by simp
  with "5.hyps" "5.prems" show ?case by blast
next
  case (6 fl a p s cs)
  from "6.prems"(1) have "(p', s', cs') = (p, s, cs) \<or>
      (\<exists>p1 s1 cs1. (p1, s1, cs1) \<in> set (matches fl a (p, s, cs)) \<and> length s1 < length s \<and>
         (p', s', cs') \<in> set (matches fl (Star a) (p1, s1, cs1)))"
    unfolding matches_Star[of fl a p s cs] by (auto split: if_splits)
  then consider "(p', s', cs') = (p, s, cs)"
    | p1 s1 cs1 where "(p1, s1, cs1) \<in> set (matches fl a (p, s, cs))" "length s1 < length s"
        "(p', s', cs') \<in> set (matches fl (Star a) (p1, s1, cs1))"
    by blast
  then show ?case
  proof cases
    case 1
    with "6.prems" show ?thesis by simp
  next
    case 2
    from matches_consumes[OF 2(1)] "6.prems"(2) have "set s1 \<subseteq> A" by auto
    moreover from "6.hyps"(1)[OF 2(1)] "6.prems" have "caps_in A cs1" by simp
    ultimately show ?thesis using "6.hyps"(2)[OF 2(1) _ 2(3)] 2(2) by simp
  qed
next
  case (7 fl i a p s cs)
  from "7.prems"(1) obtain cs1 where c1: "(p', s', cs1) \<in> set (matches fl a (p, s, cs))"
    and cs': "cs' = (i, take (length s - length s') s) # cs1" by auto
  from "7.hyps"[OF c1] "7.prems" have "caps_in A cs1" by simp
  moreover have "set (take (length s - length s') s) \<subseteq> A"
    using "7.prems"(2) by (meson set_take_subset subset_trans)
  ultimately show ?case by (simp add: cs')
next
  case (8 fl p s cs)
  then show ?case by (simp split: if_splits)
next
  case (9 fl p s cs)
  then show ?case by (simp split: if_splits)
next
  case (10 fl a p s cs)
  show ?case
  proof (cases "matches fl a (p, s, cs)")
    case Nil
    with "10.prems"(1) show ?thesis by simp
  next
    case (Cons st rest)
    obtain p1 s1 cs1 where st: "st = (p1, s1, cs1)" by (cases st)
    with Cons "10.prems"(1) have "cs' = cs1" by simp
    with Cons st have "(p1, s1, cs') \<in> set (matches fl a (p, s, cs))" by simp
    from "10.hyps"[OF this] "10.prems" show ?thesis by simp
  qed
qed

fun tlits :: "titem list \<Rightarrow> nat set" where
  "tlits [] = {}"
| "tlits (Lit l # t) = set l \<union> tlits t"
| "tlits (Ref i # t) = tlits t"
| "tlits (Whole # t) = tlits t"

lemma set_expand: "set m \<subseteq> A \<Longrightarrow> caps_in A cs \<Longrightarrow> set (expand t m cs) \<subseteq> A \<union> tlits t"
proof (induction t)
  case Nil
  show ?case by simp
next
  case (Cons x t)
  then show ?case using caps_in_group[of A cs] by (cases x) auto
qed

text \<open>
  A replacement adds only the literal text of its template, and only where the pattern
  matched.
\<close>

lemma set_render_scan:
  assumes lits: "\<And>p u. matches fl r (p, u, []) \<noteq> [] \<Longrightarrow> set u \<subseteq> set s0 \<Longrightarrow> tlits t \<subseteq> set s0 \<union> X"
  shows "set s \<subseteq> set s0 \<Longrightarrow> set (render t (scan fl r p s)) \<subseteq> set s0 \<union> X"
proof (induction s arbitrary: p rule: length_induct)
  case (1 s)
  note IH = "1.IH"[rule_format]
  note sub = "1.prems"
  have step: "set (render t (Plain c # scan fl r (Some c) v)) \<subseteq> set s0 \<union> X" if "s = c # v" for c v
  proof -
    from that sub have "set v \<subseteq> set s0" "c \<in> set s0" by auto
    with IH[of v "Some c"] that show ?thesis by simp
  qed
  show ?case
  proof (cases "match_at fl r p s")
    case None
    show ?thesis
    proof (cases s)
      case Nil
      with None show ?thesis by (subst scan.simps) simp
    next
      case (Cons c v)
      with None step[OF Cons] show ?thesis by (subst scan.simps) simp
    qed
  next
    case (Some st)
    obtain p' s' cs where st: "st = (p', s', cs)" by (cases st)
    from Some st have mem: "(p', s', cs) \<in> set (matches fl r (p, s, []))"
      and ne: "matches fl r (p, s, []) \<noteq> []"
      by (auto simp: match_at_def split: list.splits)
    from matches_caps[OF mem sub] have ci: "caps_in (set s0) cs" by simp
    from matches_consumes[OF mem] obtain u where u: "s = u @ s'" by auto
    with sub have s': "set s' \<subseteq> set s0" by auto
    from lits[OF ne sub] have tl: "tlits t \<subseteq> set s0 \<union> X" .
    have ex: "set (expand t m cs) \<subseteq> set s0 \<union> X" if "set m \<subseteq> set s0" for m
      using set_expand[OF that ci, of t] tl by auto
    have tk: "set (take n s) \<subseteq> set s0" for n
      using sub by (meson set_take_subset subset_trans)
    show ?thesis
    proof (cases "length s' < length s")
      case True
      from IH[OF True s'] have "set (render t (scan fl r p' s')) \<subseteq> set s0 \<union> X" .
      with True Some st ex[OF tk] show ?thesis
        by (subst scan.simps) simp
    next
      case False
      show ?thesis
      proof (cases s)
        case Nil
        with False Some st ex[of "[]"] show ?thesis by (subst scan.simps) simp
      next
        case (Cons c v)
        with False Some st ex[of "[]"] step[OF Cons] show ?thesis
          by (subst scan.simps) simp
      qed
    qed
  qed
qed

lemma set_replace_all:
  assumes "\<And>p u. matches fl r (p, u, []) \<noteq> [] \<Longrightarrow> set u \<subseteq> set s \<Longrightarrow> tlits t \<subseteq> set s \<union> X"
  shows "set (replace_all fl r t s) \<subseteq> set s \<union> X"
  unfolding replace_all_def by (rule set_render_scan[OF assms]) simp_all

lemma set_replace_all_lits: "tlits t \<subseteq> X \<Longrightarrow> set (replace_all fl r t s) \<subseteq> set s \<union> X"
  by (rule set_replace_all) auto

lemma set_removeEmoji: "set (removeEmoji s) \<subseteq> set s"
  by (induction s rule: removeEmoji.induct) auto


lemma replace_all_within:
  assumes "set a \<subseteq> B" "tlits t \<subseteq> B"
  shows "set (replace_all fl r t a) \<subseteq> B"
  using set_replace_all_lits[OF assms(2), of fl r a] assms(1) by auto

lemma sentenceRe_starts_with_dot:
  assumes "matches gflags sentenceRe (p, u, []) \<noteq> []"
  shows "46 \<in> set u"
proof (cases u)
  case Nil
  have "\<not> nullable sentenceRe" by (simp add: sentenceRe_def chr_def)
  from not_nullable_fails[OF this] assms Nil show ?thesis by simp
next
  case (Cons c v)
  have "may_start gflags sentenceRe p c"
    using may_start_fails[of gflags sentenceRe p c v "[]"] assms Cons by auto
  then have "c = 46"
    by (simp add: sentenceRe_def chr_def gflags_def cls_match_def)
  with Cons show ?thesis by simp
qed

lemma sentence_step_within:
  assumes "set a \<subseteq> B" "10 \<in> B"
  shows "set (replace_all gflags sentenceRe [Lit [46, 10, 10], Ref 1] a) \<subseteq> B"
proof -
  have "set (replace_all gflags sentenceRe [Lit [46, 10, 10], Ref 1] a) \<subseteq> set a \<union> B"
  proof (rule set_replace_all)
    fix p u
    assume "matches gflags sentenceRe (p, u, []) \<noteq> []" "set u \<subseteq> set a"
    with sentenceRe_starts_with_dot have "46 \<in> set a" by blast
    with assms(2) show "tlits [Lit [46, 10, 10], Ref 1] \<subseteq> set a \<union> B" by simp
  qed
  with assms(1) show ?thesis by auto
qed

lemma trim_within: "set a \<subseteq> B \<Longrightarrow> set (trim a) \<subseteq> B"
  using set_trim by blast

lemma removeEmoji_within: "set a \<subseteq> B \<Longrightarrow> set (removeEmoji a) \<subseteq> B"
  using set_removeEmoji by blast

lemma correctText_chars: "set (correctText (Some s)) \<subseteq> set s \<union> {32, 10, 58, 45}"
proof (cases "s = []")
  case True
  then show ?thesis by (simp add: correctText_def)
next
  case False
  let ?B = "set s \<union> {32, 10, 58, 45}"
  have 0: "set s \<subseteq> ?B" by auto
  have 1: "set (removeSymbols s) \<subseteq> ?B"
    unfolding removeSymbols_def
    by (intro replace_all_within removeEmoji_within 0) simp_all
  have 2: "set (joinSpacedLetters (replace_all gflags hyphenBreakRe [Ref 1, Ref 2] (removeSymbols s))) \<subseteq> ?B"
    unfolding joinSpacedLetters_def
    by (intro replace_all_within 1) simp_all
  have 3: "set (fixExtraSpaces (joinSpacedLetters
      (replace_all gflags hyphenBreakRe [Ref 1, Ref 2] (removeSymbols s)))) \<subseteq> ?B"
    unfolding fixExtraSpaces_def
    by (intro trim_within replace_all_within 2) simp_all
  have 4: "set (replace_all gflags sentenceRe [Lit [46, 10, 10], Ref 1] (fixExtraSpaces (joinSpacedLetters
      (replace_all gflags hyphenBreakRe [Ref 1, Ref 2] (removeSymbols s))))) \<subseteq> ?B"
    by (intro sentence_step_within 3) simp
  have 5: "set (dateRanges (replace_all gflags sentenceRe [Lit [46, 10, 10], Ref 1] (fixExtraSpaces
      (joinSpacedLetters (replace_all gflags hyphenBreakRe [Ref 1, Ref 2] (removeSymbols s)))))) \<subseteq> ?B"
    unfolding dateRanges_def
    by (intro replace_all_within 4) (simp_all add: js_def)
  have 6: "set (sectionBreaks (dateRanges (replace_all gflags sentenceRe [Lit [46, 10, 10], Ref 1]
      (fixExtraSpaces (joinSpacedLetters (replace_all gflags hyphenBreakRe [Ref 1, Ref 2]
      (removeSymbols s))))))) \<subseteq> ?B"
    unfolding sectionBreaks_def
    by (intro replace_all_within 5) simp_all
  have "set (replace_all gflags multiBreakRe [Lit [10, 10]] (sectionBreaks (dateRanges
      (replace_all gflags sentenceRe [Lit [46, 10, 10], Ref 1] (fixExtraSpaces (joinSpacedLetters
      (replace_all gflags hyphenBreakRe [Ref 1, Ref 2] (removeSymbols s)))))))) \<subseteq> ?B"
    by (intro replace_all_within 6) simp_all
  with False show ?thesis by (simp add: correctText_def)
qed

lemma correctText_en_dash:
  "correctText (Some [50, 48, 50, 48, 8211, 50, 48, 50, 49, 32, 120]) =
     [50, 48, 50, 48, 45, 50, 48, 50, 49, 10, 10, 120]"
  by (simp only: ev_logic ev_re ev_correctText cong: ev_cong)

text \<open>
  Claim C9 fails as worded: a year range written with an en dash comes out with the
  hyphen-minus of the replacement template, which is neither in the input nor in the
  allow-list of space, newline and colon.
\<close>

theorem allow_list_counterexample:
  "correctText (Some (js ''2020'' @ [0x2013] @ js ''2021 x'')) = js ''2020-2021'' @ [10, 10] @ js ''x'' \<and>
   \<not> set (correctText (Some (js ''2020'' @ [0x2013] @ js ''2021 x''))) \<subseteq>
       set (js ''2020'' @ [0x2013] @ js ''2021 x'') \<union> {32, 10, 58}"
proof -
  have i: "js ''2020'' @ [0x2013] @ js ''2021 x'' = [50, 48, 50, 48, 8211, 50, 48, 50, 49, 32, 120]"
    by (simp add: js_def)
  show ?thesis unfolding i correctText_en_dash by (simp add: js_def)
qed

text \<open>
  Claim C9, amended. For every input, every character of the output of \<open>correctText\<close>
  occurs in the input or is one of space, newline, colon and hyphen-minus.
\<close>

theorem output_characters_allow_list:
  "set (correctText inp) \<subseteq> (case inp of None \<Rightarrow> {} | Some s \<Rightarrow> set s) \<union> {32, 10, 58, 45}"
proof (cases inp)
  case None
  then show ?thesis by (simp add: correctText_def)
next
  case (Some s)
  with correctText_chars[of s] show ?thesis by simp
qed


section \<open>Section headers\<close>

lemma correctText_Education_Skills:
  "correctText (Some [69, 100, 117, 99, 97, 116, 105, 111, 110, 32, 83, 107, 105, 108, 108, 115, 32, 74, 97, 118, 97]) =
     [69, 100, 117, 99, 97, 116, 105, 111, 110, 58, 10, 10, 83, 107, 105, 108, 108, 115, 32, 74, 97, 118, 97]"
  by (simp only: ev_logic ev_re ev_correctText cong: ev_cong)

lemma correctText_Experience_Led:
  "correctText (Some [69, 120, 112, 101, 114, 105, 101, 110, 99, 101, 32, 76, 101, 100, 32, 112, 114, 111, 106, 101, 99, 116, 115]) =
     [69, 120, 112, 101, 114, 105, 101, 110, 99, 101, 58, 10, 10, 76, 101, 100, 32, 112, 114, 111, 106, 101, 99, 116, 115]"
  by (simp only: ev_logic ev_re ev_correctText cong: ev_cong)

text \<open>
  Claim C7 at the input "Education Skills Java": the header "Skills" is followed by
  further text on the same line, yet it gets neither colon nor paragraph break. The match
  of "Education" takes the "S" of "Skills" as the first character of the text that
  follows, and the scan goes on after it.
\<close>

theorem adjacent_section_header_is_skipped:
  "correctText (Some (js ''Education Skills Java'')) = js ''Education:'' @ [10, 10] @ js ''Skills Java''"
proof -
  have i: "js ''Education Skills Java'' = [69, 100, 117, 99, 97, 116, 105, 111, 110, 32, 83, 107, 105, 108, 108, 115, 32, 74, 97, 118, 97]"
    by (simp add: js_def)
  show ?thesis unfolding i correctText_Education_Skills by (simp add: js_def)
qed

text \<open>The example of the claim holds.\<close>

lemma section_header_example:
  "correctText (Some (js ''Experience Led projects'')) = js ''Experience:'' @ [10, 10] @ js ''Led projects''"
proof -
  have i: "js ''Experience Led projects'' = [69, 120, 112, 101, 114, 105, 101, 110, 99, 101, 32, 76, 101, 100, 32, 112, 114, 111, 106, 101, 99, 116, 115]"
    by (simp add: js_def)
  show ?thesis unfolding i correctText_Experience_Led by (simp add: js_def)
qed

section \<open>Short spaced runs\<close>

lemma foldl_fixStep_short:
  "\<forall>m \<in> set ms. length (replace_all gflags (chr 32) [] m) \<le> 2 \<Longrightarrow> foldl fixStep t ms = t"
  by (induction ms) (auto simp: fixStep_def)

lemma fixSpacedLetters_short:
  "\<forall>m \<in> set (matchAll gflags singleLetterPattern t).
      length (replace_all gflags (chr 32) [] m) \<le> 2 \<Longrightarrow> fixSpacedLetters t = t"
  using foldl_fixStep_short by (simp add: fixSpacedLetters_def Let_def)

lemma matchAll_I_T: "matchAll gflags singleLetterPattern [73, 32, 84] = [[73, 32, 84]]"
  by (simp only: ev_logic ev_re ev_clean cong: ev_cong)

lemma cleanAndFormatText_I_T: "cleanAndFormatText (Some [73, 32, 84]) = [73, 32, 84]"
  by (simp only: ev_logic ev_re ev_clean cong: ev_cong)

lemma pipeline_I_T: "trim (cleanAndFormatText (Some (basicCleanup [73, 32, 84]))) = [73, 32, 84]"
  by (simp only: ev_logic ev_re ev_clean cong: ev_cong)

lemma reconstruct_I_T: "reconstruct [item_at ''I T'' 0 100] = [73, 32, 84]"
  by (simp add: item_at_def js_def ev_reconstruct)

text \<open>
  The instance of claim C10: "I T" is a matched run, it joins to two characters, and it
  survives \<open>fixSpacedLetters\<close>, \<open>cleanAndFormatText\<close> and the whole per-page pipeline with
  its space.
\<close>

lemma short_run_I_T_survives:
  "matchAll gflags singleLetterPattern (js ''I T'') = [js ''I T''] \<and>
   fixSpacedLetters (js ''I T'') = js ''I T'' \<and>
   cleanAndFormatText (Some (js ''I T'')) = js ''I T'' \<and>
   formatTextContent (Some [item_at ''I T'' 0 100]) = js ''I T''"
proof -
  have i: "js ''I T'' = [73, 32, 84]" by (simp add: js_def)
  have "fixSpacedLetters [73, 32, 84] = [73, 32, 84]"
    by (simp only: ev_logic ev_re ev_clean cong: ev_cong)
  moreover have "formatTextContent (Some [item_at ''I T'' 0 100]) = [73, 32, 84]"
    by (simp add: formatTextContent_def reconstruct_I_T pipeline_I_T)
  ultimately show ?thesis
    unfolding i by (simp add: matchAll_I_T cleanAndFormatText_I_T)
qed

text \<open>The text "A B Corp, A B C", as code units.\<close>

definition twoRuns :: jstring where
  "twoRuns = [65, 32, 66, 32, 67, 111, 114, 112, 44, 32, 65, 32, 66, 32, 67]"

lemma twoRuns_js: "js ''A B Corp, A B C'' = twoRuns"
  by (simp add: js_def twoRuns_def)

lemma matchAll_twoRuns:
  "matchAll gflags singleLetterPattern twoRuns = [[65, 32, 66], [65, 32, 66, 32, 67]]"
  unfolding twoRuns_def by (simp only: ev_logic ev_re ev_clean cong: ev_cong)

lemma fixSpacedLetters_twoRuns:
  "fixSpacedLetters twoRuns = [65, 66, 67, 111, 114, 112, 44, 32, 65, 32, 66, 32, 67]"
  unfolding twoRuns_def by (simp only: ev_logic ev_re ev_clean cong: ev_cong)

lemma cleanAndFormatText_twoRuns:
  "cleanAndFormatText (Some twoRuns) = [65, 66, 67, 111, 114, 112, 44, 32, 65, 32, 66, 32, 67]"
  unfolding twoRuns_def by (simp only: ev_logic ev_re ev_clean cong: ev_cong)

lemma pipeline_twoRuns:
  "trim (cleanAndFormatText (Some (basicCleanup twoRuns))) =
     [65, 66, 67, 111, 114, 112, 44, 32, 65, 32, 66, 32, 67]"
  unfolding twoRuns_def by (simp only: ev_logic ev_re ev_clean cong: ev_cong)

lemma reconstruct_twoRuns: "reconstruct [item_at ''A B Corp, A B C'' 0 100] = twoRuns"
  by (simp add: item_at_def js_def twoRuns_def ev_reconstruct)

text \<open>
  Claim C10 at the input "A B Corp, A B C". The pattern matches the run "A B", which
  joins to the two characters "AB" and is to be left alone, and further on the run
  "A B C". The latter is replaced by \<open>result.replace(fullMatch, joined)\<close>, which rewrites
  the first occurrence of the string "A B C" in the text: that occurrence begins with
  the short run, so the short run loses its space and the run that was matched stays
  as it was. The result is "ABCorp, A B C", also from \<open>cleanAndFormatText\<close> and from the
  per-page pipeline.
\<close>

theorem short_run_is_rewritten:
  "matchAll gflags singleLetterPattern (js ''A B Corp, A B C'') = [js ''A B'', js ''A B C''] \<and>
   length (replace_all gflags (chr 32) [] (js ''A B'')) = 2 \<and>
   fixSpacedLetters (js ''A B Corp, A B C'') = js ''ABCorp, A B C'' \<and>
   cleanAndFormatText (Some (js ''A B Corp, A B C'')) = js ''ABCorp, A B C'' \<and>
   formatTextContent (Some [item_at ''A B Corp, A B C'' 0 100]) = js ''ABCorp, A B C''"
proof (intro conjI)
  show "matchAll gflags singleLetterPattern (js ''A B Corp, A B C'') = [js ''A B'', js ''A B C'']"
    unfolding twoRuns_js by (simp add: matchAll_twoRuns js_def)
  have "replace_all gflags (chr 32) [] [65, 32, 66] = [65, 66]"
    by (simp only: ev_logic ev_re ev_clean cong: ev_cong)
  then show "length (replace_all gflags (chr 32) [] (js ''A B'')) = 2"
    by (simp add: js_def)
  show "fixSpacedLetters (js ''A B Corp, A B C'') = js ''ABCorp, A B C''"
    unfolding twoRuns_js by (simp add: fixSpacedLetters_twoRuns js_def)
  show "cleanAndFormatText (Some (js ''A B Corp, A B C'')) = js ''ABCorp, A B C''"
    unfolding twoRuns_js by (simp add: cleanAndFormatText_twoRuns js_def)
  show "formatTextContent (Some [item_at ''A B Corp, A B C'' 0 100]) = js ''ABCorp, A B C''"
    by (simp add: formatTextContent_def reconstruct_twoRuns pipeline_twoRuns) (simp add: js_def)
qed


section \<open>Empty input\<close>

text \<open>
  Claim C8. Neither stage fails on empty input: for the empty fragment list (and for a
  text content without items) \<open>formatTextContent\<close> returns the empty string, and for
  empty or null input \<open>correctText\<close> and \<open>cleanAndFormatText\<close> return the empty string.
\<close>

theorem empty_input_gives_empty_string:
  "formatTextContent (Some []) = [] \<and> formatTextContent None = [] \<and>
   correctText None = [] \<and> correctText (Some []) = [] \<and>
   cleanAndFormatText None = [] \<and> cleanAndFormatText (Some []) = []"
  by (simp add: formatTextContent_def reconstruct_def sortItems_def groupLines_def
      assemble.simps basicCleanup_def replace_all_def scan.simps match_at_def
      sentenceEndRe_def threeBreaksRe_def chr_def correctText_def cleanAndFormatText_def
      trim_def)

end
